theory Spec2Isabelle
  imports Main
begin

section \<open>Strings and the Unicode tables\<close>

text \<open>
  A Python \<open>str\<close> is a sequence of Unicode code points; a code point is modelled as a
  natural number and a string as a list of them. The literals of \<open>main.py\<close> are written
  by their code points (U+0627 is ALEF, U+0623 ALEF WITH HAMZA ABOVE, U+0625 ALEF WITH
  HAMZA BELOW, U+0647 HEH, U+0629 TEH MARBUTA, U+0649 ALEF MAKSURA, U+064A YEH,
  U+0020 SPACE).
\<close>

type_synonym cp = nat
type_synonym ustr = "cp list"

text \<open>
  \<open>main.py\<close> calls into the Unicode Character Database through \<open>unicodedata.normalize\<close>,
  \<open>unicodedata.combining\<close>, \<open>str.split\<close>, \<open>str.lower\<close> and \<open>str.upper\<close>. The tables
  behind these calls belong to the Python runtime, not to the program; they are a parameter
  of the model:
  \<^item> \<open>decomp c\<close>: the full (recursively expanded) compatibility decomposition of \<open>c\<close>,
  \<^item> \<open>combining c\<close>: the canonical combining class, as \<open>unicodedata.combining\<close>,
  \<^item> \<open>isspace c\<close>: whether \<open>str.split()\<close> treats \<open>c\<close> as whitespace,
  \<^item> \<open>tolower c\<close>, \<open>toupper c\<close>: the full case mappings of one code point,
  \<^item> \<open>cased c\<close>, \<open>case_ignorable c\<close>: the two properties consulted by \<open>str.lower\<close>
    at U+03A3 (GREEK CAPITAL LETTER SIGMA).

  Two more tables are not read by \<open>main.py\<close>; they say what a combining mark and an
  uppercase code point are:
  \<^item> \<open>is_mark c\<close>: the general category of \<open>c\<close> is a mark (\<open>unicodedata.category\<close>
    gives \<open>Mn\<close>, \<open>Mc\<close> or \<open>Me\<close>),
  \<^item> \<open>isupper c\<close>: \<open>c\<close> is uppercase, as \<open>str.isupper\<close> tells of the one code point.
\<close>

record ucd =
  decomp :: "cp \<Rightarrow> ustr"
  combining :: "cp \<Rightarrow> nat"
  isspace :: "cp \<Rightarrow> bool"
  tolower :: "cp \<Rightarrow> ustr"
  toupper :: "cp \<Rightarrow> ustr"
  cased :: "cp \<Rightarrow> bool"
  case_ignorable :: "cp \<Rightarrow> bool"
  is_mark :: "cp \<Rightarrow> bool"
  isupper :: "cp \<Rightarrow> bool"

subsection \<open>\<open>str\<close> methods\<close>

text \<open>\<open>s.replace(old, new)\<close> for a pattern \<open>old\<close> of one code point, which is the only
  way \<open>main.py\<close> calls it.\<close>

definition str_replace :: "cp \<Rightarrow> ustr \<Rightarrow> ustr \<Rightarrow> ustr" where
  "str_replace old new s = concat (map (\<lambda>c. if c = old then new else [c]) s)"

text \<open>\<open>s.split()\<close>: the maximal runs of non-whitespace code points, scanned left to right;
  \<open>cur\<close> is the word being read.\<close>

fun split_scan :: "ucd \<Rightarrow> ustr \<Rightarrow> ustr \<Rightarrow> ustr list" where
  "split_scan db cur [] = (if cur = [] then [] else [cur])"
| "split_scan db cur (c # cs) =
     (if isspace db c
      then (if cur = [] then split_scan db [] cs else cur # split_scan db [] cs)
      else split_scan db (cur @ [c]) cs)"

definition str_split :: "ucd \<Rightarrow> ustr \<Rightarrow> ustr list" where
  "str_split db s = split_scan db [] s"

text \<open>\<open>sep.join(words)\<close>.\<close>

fun str_join :: "ustr \<Rightarrow> ustr list \<Rightarrow> ustr" where
  "str_join sep [] = []"
| "str_join sep [w] = w"
| "str_join sep (w # ws) = w @ sep @ str_join sep ws"

text \<open>
  \<open>s.lower()\<close>: every code point is replaced by its full lowercase mapping, except
  U+03A3, which becomes U+03C2 in the Final_Sigma context (preceded by a cased letter and
  not followed by one, case-ignorable code points skipped) and U+03C3 otherwise. The context
  is read from the original string: \<open>seen\<close> is the part already passed.
\<close>

definition handle_capital_sigma :: "ucd \<Rightarrow> ustr \<Rightarrow> ustr \<Rightarrow> cp" where
  "handle_capital_sigma db seen after =
     (let final_sigma =
            (case dropWhile (case_ignorable db) (rev seen) of
               [] \<Rightarrow> False | c # _ \<Rightarrow> cased db c);
          final_sigma =
            (final_sigma \<and>
             (case dropWhile (case_ignorable db) after of
                [] \<Rightarrow> True | c # _ \<Rightarrow> \<not> cased db c))
      in if final_sigma then 0x3C2 else 0x3C3)"

fun lower_from :: "ucd \<Rightarrow> ustr \<Rightarrow> ustr \<Rightarrow> ustr" where
  "lower_from db seen [] = []"
| "lower_from db seen (c # after) =
     (if c = 0x3A3 then [handle_capital_sigma db seen after] else tolower db c)
     @ lower_from db (seen @ [c]) after"

definition str_lower :: "ucd \<Rightarrow> ustr \<Rightarrow> ustr" where
  "str_lower db s = lower_from db [] s"

text \<open>\<open>s.upper()\<close>: the full uppercase mapping of every code point.\<close>

definition str_upper :: "ucd \<Rightarrow> ustr \<Rightarrow> ustr" where
  "str_upper db s = concat (map (toupper db) s)"

text \<open>\<open>p in s\<close> on strings: \<open>p\<close> occurs in \<open>s\<close> as a contiguous substring. The search tries
  every start position in turn.\<close>

fun starts_with :: "ustr \<Rightarrow> ustr \<Rightarrow> bool" where
  "starts_with s [] = True"
| "starts_with [] (p # ps) = False"
| "starts_with (c # cs) (p # ps) = (c = p \<and> starts_with cs ps)"

fun str_contains :: "ustr \<Rightarrow> ustr \<Rightarrow> bool" where
  "str_contains [] p = (p = [])"
| "str_contains (c # cs) p = (starts_with (c # cs) p \<or> str_contains cs p)"

subsection \<open>\<open>unicodedata.normalize('NFKD', s)\<close>\<close>

text \<open>
  Normalization form KD decomposes every code point fully and then puts the combining
  marks in canonical order: a mark (combining class not 0) is moved to the left past the
  marks of a greater class standing directly before it. \<open>reorder_mark\<close> inserts one code
  point into the reversed, already ordered prefix.
\<close>

fun reorder_mark :: "ucd \<Rightarrow> cp \<Rightarrow> ustr \<Rightarrow> ustr" where
  "reorder_mark db c [] = [c]"
| "reorder_mark db c (p # ps) =
     (if combining db p = 0 \<or> combining db c = 0 \<or> combining db p \<le> combining db c
      then c # p # ps
      else p # reorder_mark db c ps)"

definition canonical_order :: "ucd \<Rightarrow> ustr \<Rightarrow> ustr" where
  "canonical_order db s = rev (foldl (\<lambda>acc c. reorder_mark db c acc) [] s)"

definition nfkd :: "ucd \<Rightarrow> ustr \<Rightarrow> ustr" where
  "nfkd db s = canonical_order db (concat (map (decomp db) s))"

section \<open>\<open>ArabicContentModerator\<close>\<close>

subsection \<open>\<open>normalize_arabic_text\<close>\<close>

definition normalize_arabic_text :: "ucd \<Rightarrow> ustr \<Rightarrow> ustr" where
  "normalize_arabic_text db text =
     (let text = filter (\<lambda>char. \<not> (combining db char \<noteq> 0)) (nfkd db text);
          text = str_replace 0x649 [0x64A] text;
          text = str_replace 0x629 [0x647] text;
          text = str_replace 0x623 [0x627] text;
          text = str_replace 0x625 [0x627] text;
          text = str_lower db (str_join [0x20] (str_split db text))
      in text)"

subsection \<open>\<open>_compile_bad_words\<close>\<close>

text \<open>The seed list \<open>bad_words\<close>, in the order of the source (39 literals; the word
  U+0645 U+0646 U+064A U+0648 U+062C is listed twice).\<close>

definition seed_words :: "ustr list" where
  "seed_words = [
   [0x62D, 0x645, 0x627, 0x631],
   [0x643, 0x644, 0x628],
   [0x639, 0x627, 0x647, 0x631],
   [0x632, 0x646, 0x64A, 0x629],
   [0x643, 0x648, 0x627, 0x62F],
   [0x645, 0x646, 0x64A, 0x648, 0x62C],
   [0x62E, 0x648, 0x627, 0x62A, 0x20, 0x643, 0x62D, 0x628, 0x629],
   [0x643, 0x633],
   [0x645, 0x623, 0x62C, 0x648, 0x631],
   [0x639, 0x645, 0x64A, 0x644],
   [0x637, 0x64A, 0x632, 0x643],
   [0x637, 0x64A, 0x632],
   [0x639, 0x627, 0x647, 0x631, 0x629],
   [0x632, 0x646, 0x627],
   [0x643, 0x62D, 0x628, 0x647],
   [0x645, 0x646, 0x64A, 0x648, 0x62C],
   [0x62A, 0x644, 0x648, 0x632, 0x647],
   [0x62A, 0x644, 0x648, 0x632, 0x629],
   [0x635, 0x631, 0x645, 0x643],
   [0x635, 0x631, 0x645],
   [0x639, 0x631, 0x635],
   [0x642, 0x62D, 0x628, 0x629],
   [0x645, 0x646, 0x64A, 0x64A, 0x62C, 0x647],
   [0x634, 0x631, 0x645, 0x648, 0x637, 0x629],
   [0x639, 0x64A, 0x631],
   [0x627, 0x64A, 0x62C, 0x62A],
   [0x645, 0x646, 0x64A, 0x62C, 0x629],
   [0x643, 0x633, 0x645],
   [0x643, 0x644, 0x62E],
   [0x6B, 0x6F, 0x73],
   [0x6B, 0x75, 0x73, 0x73],
   [0x6B, 0x68, 0x61, 0x72, 0x61],
   [0x6B, 0x68, 0x61, 0x72, 0x61, 0x32],
   [0x6D, 0x61, 0x6E, 0x79, 0x61, 0x6B],
   [0x6D, 0x61, 0x6E, 0x61, 0x6B],
   [0x73, 0x68, 0x61, 0x72, 0x6D, 0x6F, 0x74, 0x61],
   [0x62D, 0x20, 0x645, 0x20, 0x627, 0x20, 0x631],
   [0x643, 0x20, 0x644, 0x20, 0x628],
   [0x639, 0x20, 0x627, 0x20, 0x647, 0x20, 0x631]
  ]"

text \<open>The loop body appends, for one word: the word, the word without spaces, and the
  three letter substitutions.\<close>

definition variations :: "ustr \<Rightarrow> ustr list" where
  "variations word =
     [str_replace 0x627 [0x623] word,
      str_replace 0x627 [0x625] word,
      str_replace 0x647 [0x629] word]"

fun extend_words :: "ustr list \<Rightarrow> ustr list \<Rightarrow> ustr list" where
  "extend_words extended_words [] = extended_words"
| "extend_words extended_words (word # rest) =
     extend_words
       (((extended_words @ [word]) @ [str_replace 0x20 [] word]) @ variations word) rest"

text \<open>
  The result is \<open>set(extended_words)\<close>: duplicates are dropped and Python fixes no iteration
  order. The model keeps the first occurrence of every entry; the matcher's verdict is shown
  below to depend on the set of entries only.
\<close>

definition compile_bad_words :: "ustr list" where
  "compile_bad_words = remdups (extend_words [] seed_words)"


subsection \<open>\<open>contains_bad_words\<close>\<close>

text \<open>ASCII literals are written as Isabelle strings and read as code points.\<close>

abbreviation ascii :: "string \<Rightarrow> ustr" where
  "ascii s \<equiv> map of_char s"

text \<open>An instance of Python's \<open>Exception\<close>, with the text that \<open>str(e)\<close> gives.\<close>

datatype exn = Exception ustr

fun str_of_exn :: "exn \<Rightarrow> ustr" where
  "str_of_exn (Exception msg) = msg"

text \<open>
  What the program cannot decide itself comes from the environment: the generative
  model (the text of the response to a prompt, or the exception raised by
  \<open>generate_content\<close> or by reading \<open>response.text\<close>) and the outcome of the two calls to
  the messaging platform (\<open>None\<close>: the call returns; \<open>Some e\<close>: it raises \<open>e\<close>).
\<close>

record env =
  generate_content :: "ustr \<Rightarrow> exn + ustr"
  delete_raises :: "exn option"
  send_message_raises :: "exn option"

datatype platform_call =
  Delete_message
| Send_message int ustr ustr

text \<open>
  The state that the methods read and write: the lexicon \<open>self.bad_words\<close>, and the
  effects in the order they happen: the prompts sent to the generative model, the calls
  to the messaging platform (\<open>Send_message chat_id text parse_mode\<close>), and the lines printed.
\<close>

record state =
  bad_words :: "ustr list"
  api_calls :: "ustr list"
  platform_calls :: "platform_call list"
  stdout :: "ustr list"

text \<open>\<open>__init__\<close> builds the lexicon once.\<close>

definition init_state :: state where
  "init_state =
     \<lparr>bad_words = compile_bad_words, api_calls = [], platform_calls = [], stdout = []\<rparr>"

text \<open>The f-string \<open>prompt\<close>: the text before and after \<open>{text}\<close>.\<close>

definition prompt_before :: ustr where
  "prompt_before =
     [0xA, 0x20, 0x20, 0x20, 0x20, 0x20, 0x20, 0x20, 0x20, 0x20, 0x20, 0x20,
      0x20, 0x644, 0x627, 0x20, 0x62A, 0x645, 0x633, 0x62D, 0x20, 0x627, 0x644, 0x631,
      0x633, 0x627, 0x644, 0x629, 0x20, 0x627, 0x630, 0x627, 0x20, 0x644, 0x645, 0x20,
      0x62A, 0x62A, 0x639, 0x631, 0x641, 0x20, 0x639, 0x644, 0x649, 0x20, 0x645, 0x639,
      0x646, 0x649, 0x20, 0x627, 0x644, 0x643, 0x644, 0x645, 0x629, 0x20, 0x644, 0x627,
      0x62A, 0x645, 0x633, 0x62D, 0x20, 0x627, 0x644, 0x631, 0x633, 0x627, 0x626, 0x644,
      0x20, 0x627, 0x630, 0x627, 0x20, 0x644, 0x645, 0x20, 0x62A, 0x639, 0x631, 0x641,
      0x20, 0x645, 0x639, 0x646, 0x627, 0x647, 0x627, 0xA, 0x20, 0x20, 0x20, 0x20,
      0x20, 0x20, 0x20, 0x20, 0x20, 0x20, 0x20, 0x20, 0x2E, 0x642, 0x645, 0x20,
      0x628, 0x62A, 0x62D, 0x644, 0x64A, 0x644, 0x20, 0x627, 0x644, 0x646, 0x635, 0x20,
      0x62A, 0x62D, 0x644, 0x64A, 0x644, 0x627, 0x20, 0x633, 0x647, 0x644, 0x627, 0x20,
      0x628, 0x627, 0x644, 0x639, 0x631, 0x628, 0x64A, 0x629, 0x20, 0x648, 0x62D, 0x62F,
      0x62F, 0x20, 0x627, 0x644, 0x623, 0x644, 0x641, 0x627, 0x638, 0x20, 0x627, 0x644,
      0x62C, 0x646, 0x633, 0x64A, 0x629, 0x20, 0x641, 0x642, 0x637, 0x20, 0x645, 0x62B,
      0x644, 0x20, 0x646, 0x64A, 0x62C, 0x20, 0x648, 0x20, 0x643, 0x633, 0x20, 0xA,
      0x20, 0x20, 0x20, 0x20, 0x20, 0x20, 0x20, 0x20, 0x20, 0x20, 0x20, 0x20,
      0x644, 0x627, 0x20, 0x62A, 0x645, 0x633, 0x62D, 0x20, 0x627, 0x644, 0x633, 0x628,
      0x20, 0x627, 0x644, 0x639, 0x627, 0x62F, 0x64A, 0x20, 0x641, 0x642, 0x637, 0x20,
      0x627, 0x644, 0x633, 0x628, 0x20, 0x627, 0x644, 0x642, 0x648, 0x64A, 0x20, 0x62C,
      0x62F, 0x627, 0xA, 0x20, 0x20, 0x20, 0x20, 0x20, 0x20, 0x20, 0x20, 0x20,
      0x20, 0x20, 0x20, 0x54, 0x65, 0x78, 0x74, 0x3A, 0x20, 0x27]"

definition prompt_after :: ustr where
  "prompt_after =
     [0x27, 0xA, 0x20, 0x20, 0x20, 0x20, 0x20, 0x20, 0x20, 0x20, 0x20, 0x20,
      0x20, 0x20, 0xA, 0x20, 0x20, 0x20, 0x20, 0x20, 0x20, 0x20, 0x20, 0x20,
      0x20, 0x20, 0x20, 0x50, 0x72, 0x6F, 0x76, 0x69, 0x64, 0x65, 0x20, 0x61,
      0x20, 0x62, 0x6F, 0x6F, 0x6C, 0x65, 0x61, 0x6E, 0x20, 0x72, 0x65, 0x73,
      0x70, 0x6F, 0x6E, 0x73, 0x65, 0x3A, 0xA, 0x20, 0x20, 0x20, 0x20, 0x20,
      0x20, 0x20, 0x20, 0x20, 0x20, 0x20, 0x20, 0x2D, 0x20, 0x52, 0x65, 0x73,
      0x70, 0x6F, 0x6E, 0x64, 0x20, 0x77, 0x69, 0x74, 0x68, 0x20, 0x27, 0x54,
      0x52, 0x55, 0x45, 0x27, 0x20, 0x69, 0x66, 0x20, 0x74, 0x68, 0x65, 0x20,
      0x74, 0x65, 0x78, 0x74, 0x20, 0x63, 0x6F, 0x6E, 0x74, 0x61, 0x69, 0x6E,
      0x73, 0x20, 0x61, 0x6E, 0x79, 0x20, 0x69, 0x6E, 0x61, 0x70, 0x70, 0x72,
      0x6F, 0x70, 0x72, 0x69, 0x61, 0x74, 0x65, 0x20, 0x63, 0x6F, 0x6E, 0x74,
      0x65, 0x6E, 0x74, 0xA, 0x20, 0x20, 0x20, 0x20, 0x20, 0x20, 0x20, 0x20,
      0x20, 0x20, 0x20, 0x20, 0x2D, 0x20, 0x52, 0x65, 0x73, 0x70, 0x6F, 0x6E,
      0x64, 0x20, 0x77, 0x69, 0x74, 0x68, 0x20, 0x27, 0x46, 0x41, 0x4C, 0x53,
      0x45, 0x27, 0x20, 0x69, 0x66, 0x20, 0x74, 0x68, 0x65, 0x20, 0x74, 0x65,
      0x78, 0x74, 0x20, 0x69, 0x73, 0x20, 0x63, 0x6F, 0x6D, 0x70, 0x6C, 0x65,
      0x74, 0x65, 0x6C, 0x79, 0x20, 0x63, 0x6C, 0x65, 0x61, 0x6E, 0xA, 0x20,
      0x20, 0x20, 0x20, 0x20, 0x20, 0x20, 0x20, 0x20, 0x20, 0x20, 0x20, 0xA,
      0x20, 0x20, 0x20, 0x20, 0x20, 0x20, 0x20, 0x20, 0x20, 0x20, 0x20, 0x20,
      0x42, 0x65, 0x20, 0x65, 0x78, 0x74, 0x72, 0x65, 0x6D, 0x65, 0x6C, 0x79,
      0x20, 0x70, 0x72, 0x65, 0x63, 0x69, 0x73, 0x65, 0x20, 0x61, 0x6E, 0x64,
      0x20, 0x63, 0x6F, 0x6E, 0x73, 0x69, 0x64, 0x65, 0x72, 0x20, 0x63, 0x75,
      0x6C, 0x74, 0x75, 0x72, 0x61, 0x6C, 0x20, 0x73, 0x65, 0x6E, 0x73, 0x69,
      0x74, 0x69, 0x76, 0x69, 0x74, 0x69, 0x65, 0x73, 0x2E, 0xA, 0x20, 0x20,
      0x20, 0x20, 0x20, 0x20, 0x20, 0x20, 0x20, 0x20, 0x20, 0x20]"

definition make_prompt :: "ustr \<Rightarrow> ustr" where
  "make_prompt text = prompt_before @ text @ prompt_after"

text \<open>The loop \<open>for bad_word in self.bad_words\<close>, leaving at the first match.\<close>

fun direct_match :: "ucd \<Rightarrow> ustr list \<Rightarrow> ustr \<Rightarrow> bool" where
  "direct_match db [] normalized_text = False"
| "direct_match db (bad_word # rest) normalized_text =
     (if str_contains normalized_text (str_lower db bad_word) then True
      else direct_match db rest normalized_text)"

text \<open>
  The body of the \<open>try\<close> block: the prompt is sent; the block ends with the verdict read
  from the response, or with the exception raised on the way.
\<close>

definition gemini_check :: "ucd \<Rightarrow> env \<Rightarrow> ustr \<Rightarrow> state \<Rightarrow> (exn + bool) \<times> state" where
  "gemini_check db ev text st =
     (let prompt = make_prompt text;
          st = st\<lparr>api_calls := api_calls st @ [prompt]\<rparr>
      in case generate_content ev prompt of
           Inl e \<Rightarrow> (Inl e, st)
         | Inr response_text \<Rightarrow>
             (Inr (str_contains (str_upper db response_text) (ascii ''TRUE'')), st))"

definition print_line :: "ustr \<Rightarrow> state \<Rightarrow> state" where
  "print_line s st = st\<lparr>stdout := stdout st @ [s]\<rparr>"

text \<open>\<open>contains_bad_words\<close> ends with the value returned (\<open>Inr\<close>) or with an exception that
  leaves the method (\<open>Inl\<close>), and the state reached.\<close>

definition contains_bad_words :: "ucd \<Rightarrow> env \<Rightarrow> ustr \<Rightarrow> state \<Rightarrow> (exn + bool) \<times> state" where
  "contains_bad_words db ev text st =
     (let normalized_text = normalize_arabic_text db text in
      if direct_match db (bad_words st) normalized_text then (Inr True, st)
      else
        (case gemini_check db ev text st of
           (Inr verdict, st) \<Rightarrow> (Inr verdict, st)
         | (Inl e, st) \<Rightarrow>
             (Inr False,
              print_line (ascii ''Gemini moderation check failed: '' @ str_of_exn e) st)))"

section \<open>\<open>ContentModerationBot\<close>\<close>

text \<open>
  The part of a platform update that \<open>moderate_message\<close> reads: the message with its text
  (either may be \<open>None\<close>), the identifier of \<open>effective_chat\<close> and the result of
  \<open>effective_user.mention_html()\<close> (\<open>None\<close> where the update has no chat or no user).
\<close>

record message =
  message_text :: "ustr option"

record update =
  message :: "message option"
  effective_chat :: "int option"
  effective_user :: "ustr option"

definition warning_before :: ustr where
  "warning_before =
     [0x26A0, 0xFE0F, 0x20, 0x62A, 0x645, 0x20, 0x62D, 0x630, 0x641, 0x20, 0x631, 0x633,
      0x627, 0x644, 0x629, 0x20, 0x645, 0x646, 0x20]"

definition warning_after :: ustr where
  "warning_after =
     [0x20, 0x628, 0x633, 0x628, 0x628, 0x20, 0x645, 0x62D, 0x62A, 0x648, 0x649, 0x20,
      0x63A, 0x64A, 0x631, 0x20, 0x644, 0x627, 0x626, 0x642, 0x2E]"

definition platform_call :: "platform_call \<Rightarrow> state \<Rightarrow> state" where
  "platform_call c st = st\<lparr>platform_calls := platform_calls st @ [c]\<rparr>"

text \<open>
  The inner \<open>try\<close> block: delete the message, build the warning, send it. It ends with
  the state reached and, where a step raised, the exception: raised by the platform, or by
  reading an attribute of \<open>None\<close> (an \<open>AttributeError\<close>).
\<close>

definition attribute_error :: "string \<Rightarrow> exn" where
  "attribute_error name =
     Exception ([0x27] @ ascii ''NoneType'' @ [0x27] @ ascii '' object has no attribute ''
                @ [0x27] @ ascii name @ [0x27])"

definition delete_and_warn :: "env \<Rightarrow> update \<Rightarrow> state \<Rightarrow> state \<times> exn option" where
  "delete_and_warn ev upd st =
     (let st = platform_call Delete_message st in
      case delete_raises ev of
        Some e \<Rightarrow> (st, Some e)
      | None \<Rightarrow>
         (case effective_user upd of
            None \<Rightarrow> (st, Some (attribute_error ''mention_html''))
          | Some mention \<Rightarrow>
             (let warning_message = warning_before @ mention @ warning_after in
              case effective_chat upd of
                None \<Rightarrow> (st, Some (attribute_error ''id''))
              | Some chat_id \<Rightarrow>
                 (let st = platform_call
                             (Send_message chat_id warning_message (ascii ''HTML'')) st
                  in (st, send_message_raises ev)))))"

text \<open>
  \<open>moderate_message\<close>. A missing message, a missing text and the empty text are all false
  for Python's \<open>not\<close>. Both handlers print the exception and return.
\<close>

definition moderate_message :: "ucd \<Rightarrow> env \<Rightarrow> update \<Rightarrow> state \<Rightarrow> state" where
  "moderate_message db ev upd st =
     (case message upd of
        None \<Rightarrow> st
      | Some m \<Rightarrow>
         (case message_text m of
            None \<Rightarrow> st
          | Some text \<Rightarrow>
             if text = [] then st
             else
               (case contains_bad_words db ev text st of
                  (Inl moderation_error, st) \<Rightarrow>
                    print_line (ascii ''Moderation check failed: ''
                                @ str_of_exn moderation_error) st
                | (Inr flagged, st) \<Rightarrow>
                    if flagged then
                      (case delete_and_warn ev upd st of
                         (st, Some delete_error) \<Rightarrow>
                           print_line (ascii ''Could not delete message: ''
                                       @ str_of_exn delete_error) st
                       | (st, None) \<Rightarrow> st)
                    else st)))"

section \<open>\<open>get_api_keys\<close>\<close>

text \<open>\<open>sys.exit(1)\<close> ends the process with the given status instead of returning.\<close>

datatype 'a outcome = Return 'a | Exit int

definition TELEGRAM_BOT_TOKEN :: ustr where
  "TELEGRAM_BOT_TOKEN = ascii ''xxxxxxxxxxxxxxxz''"

definition GOOGLE_GEMINI_API_KEY :: ustr where
  "GOOGLE_GEMINI_API_KEY = ascii ''AIzaSyAseXen26vnBIoaxxxxxxxxxxxxxx''"

text \<open>The four lines printed before the exit.\<close>

definition replace_keys_message :: "ustr list" where
  "replace_keys_message =
     [[0x274C, 0x20, 0x62E, 0x637, 0x623, 0x3A, 0x20, 0x64A, 0x62C, 0x628, 0x20, 0x639,
      0x644, 0x64A, 0x643, 0x20, 0x627, 0x633, 0x62A, 0x628, 0x62F, 0x627, 0x644, 0x20,
      0x645, 0x641, 0x627, 0x62A, 0x64A, 0x62D, 0x20, 0x41, 0x50, 0x49, 0x21],
      [0x627, 0x644, 0x62E, 0x637, 0x648, 0x627, 0x62A, 0x20, 0x644, 0x644, 0x62D, 0x635,
      0x648, 0x644, 0x20, 0x639, 0x644, 0x649, 0x20, 0x627, 0x644, 0x645, 0x641, 0x627,
      0x62A, 0x64A, 0x62D, 0x3A],
      [0x31, 0x2E, 0x20, 0x631, 0x645, 0x632, 0x20, 0x628, 0x648, 0x62A, 0x20, 0x62A,
      0x644, 0x64A, 0x62C, 0x631, 0x627, 0x645, 0x3A, 0x20, 0x62A, 0x62D, 0x62F, 0x62B,
      0x20, 0x645, 0x639, 0x20, 0x40, 0x42, 0x6F, 0x74, 0x46, 0x61, 0x74, 0x68,
      0x65, 0x72, 0x20, 0x639, 0x644, 0x649, 0x20, 0x62A, 0x644, 0x64A, 0x62C, 0x631,
      0x627, 0x645],
      [0x32, 0x2E, 0x20, 0x645, 0x641, 0x62A, 0x627, 0x62D, 0x20, 0x47, 0x6F, 0x6F,
      0x67, 0x6C, 0x65, 0x20, 0x47, 0x65, 0x6D, 0x69, 0x6E, 0x69, 0x20, 0x41,
      0x50, 0x49, 0x3A, 0x20, 0x632, 0x631, 0x20, 0x68, 0x74, 0x74, 0x70, 0x73,
      0x3A, 0x2F, 0x2F, 0x6D, 0x61, 0x6B, 0x65, 0x72, 0x73, 0x75, 0x69, 0x74,
      0x65, 0x2E, 0x67, 0x6F, 0x6F, 0x67, 0x6C, 0x65, 0x2E, 0x63, 0x6F, 0x6D,
      0x2F, 0x61, 0x70, 0x70, 0x2F, 0x61, 0x70, 0x69, 0x6B, 0x65, 0x79]]"

text \<open>
  The body of \<open>get_api_keys\<close> for any two values of its local constants: the source fixes
  them, and asks for them to be edited.
\<close>

definition get_api_keys_with :: "ustr \<Rightarrow> ustr \<Rightarrow> ustr list \<Rightarrow> (ustr \<times> ustr) outcome \<times> ustr list" where
  "get_api_keys_with token api_key out =
     (if token = ascii ''YOUR_TELEGRAM_BOT_TOKEN'' \<or> api_key = ascii ''YOUR_GOOGLE_GEMINI_API_KEY''
      then (Exit 1, out @ replace_keys_message)
      else (Return (token, api_key), out))"

definition get_api_keys :: "ustr list \<Rightarrow> (ustr \<times> ustr) outcome \<times> ustr list" where
  "get_api_keys out = get_api_keys_with TELEGRAM_BOT_TOKEN GOOGLE_GEMINI_API_KEY out"

section \<open>Facts about the Unicode tables\<close>

text \<open>A starter that NFKD leaves alone: no decomposition and combining class 0.\<close>

definition starter :: "ucd \<Rightarrow> cp \<Rightarrow> bool" where
  "starter db c \<longleftrightarrow> decomp db c = [c] \<and> combining db c = 0"

text \<open>
  The properties of the tables that the theorems below rely on. All of them are facts of
  the Unicode Character Database (they hold of every code point in version 14.0.0, the one
  of Python 3.11):
  \<^item> decompositions are full: a code point of a decomposition has none itself;
  \<^item> lowercasing a starter that has a different lowercase form gives a non-empty string
    of starters that are their own lowercase form, none of them whitespace, U+03A3 or one
    of the four Arabic letters that \<open>normalize_arabic_text\<close> replaces;
  \<^item> whitespace has no case;
  \<^item> the two small sigmas are caseless starters, and no sigma is whitespace;
  \<^item> U+0020 is whitespace and a starter;
  \<^item> the Arabic letters U+0621..U+064A are caseless and no whitespace, none is a
    combining mark, and those from U+0627 on have no decomposition;
  \<^item> the ASCII digits and small letters are caseless starters and no whitespace.
\<close>

definition unicode_facts :: "ucd \<Rightarrow> bool" where
  "unicode_facts db \<longleftrightarrow>
     (\<forall>c. \<forall>d \<in> set (decomp db c). decomp db d = [d]) \<and>
     (\<forall>c. starter db c \<and> tolower db c \<noteq> [c] \<longrightarrow>
          tolower db c \<noteq> [] \<and>
          (\<forall>d \<in> set (tolower db c).
             starter db d \<and> tolower db d = [d] \<and> d \<noteq> 0x3A3 \<and> \<not> isspace db d \<and>
             d \<notin> {0x649, 0x629, 0x623, 0x625})) \<and>
     (\<forall>c. isspace db c \<longrightarrow> tolower db c = [c]) \<and>
     (\<forall>c \<in> {0x3C2, 0x3C3}. starter db c \<and> tolower db c = [c] \<and> \<not> isspace db c) \<and>
     \<not> isspace db 0x3A3 \<and>
     isspace db 0x20 \<and> starter db 0x20 \<and>
     (\<forall>c. 0x621 \<le> c \<and> c \<le> 0x64A \<longrightarrow>
          tolower db c = [c] \<and> \<not> isspace db c \<and> combining db c = 0 \<and>
          (0x627 \<le> c \<longrightarrow> decomp db c = [c])) \<and>
     (\<forall>c. (0x30 \<le> c \<and> c \<le> 0x39) \<or> (0x61 \<le> c \<and> c \<le> 0x7A) \<longrightarrow>
          starter db c \<and> tolower db c = [c] \<and> \<not> isspace db c)"

text \<open>
  What one pass of \<open>normalize_arabic_text\<close> leaves in a word: a starter that is its own
  lowercase form, no whitespace, not U+03A3, and none of the four Arabic letters that are
  replaced. A text is in normal shape when it is such words joined by single spaces.
\<close>

definition settled :: "ucd \<Rightarrow> cp \<Rightarrow> bool" where
  "settled db c \<longleftrightarrow>
     starter db c \<and> tolower db c = [c] \<and> \<not> isspace db c \<and> c \<noteq> 0x3A3 \<and>
     c \<notin> {0x649, 0x629, 0x623, 0x625}"

definition settled_words :: "ucd \<Rightarrow> ustr list \<Rightarrow> bool" where
  "settled_words db ws \<longleftrightarrow> (\<forall>w \<in> set ws. w \<noteq> [] \<and> (\<forall>c \<in> set w. settled db c))"

text \<open>The code points of the lexicon entries that no step of the normalization changes:
  ASCII digits and small letters, and the Arabic letters from U+0627 to U+064A other
  than U+0629 and U+0649.\<close>

definition plain_cp :: "cp \<Rightarrow> bool" where
  "plain_cp c \<longleftrightarrow>
     (0x30 \<le> c \<and> c \<le> 0x39) \<or> (0x61 \<le> c \<and> c \<le> 0x7A) \<or>
     (0x627 \<le> c \<and> c \<le> 0x64A \<and> c \<noteq> 0x629 \<and> c \<noteq> 0x649)"



subsection \<open>An excerpt of the tables\<close>

text \<open>
  The rows of the Unicode Character Database 14.0.0 for the blocks Basic Latin
  (U+0000..U+007F) and Arabic (U+0600..U+06FF), and for two more code points: U+034F
  (COMBINING GRAPHEME JOINER, a mark of combining class 0) and U+1F150 (NEGATIVE CIRCLED
  LATIN CAPITAL LETTER A, uppercase and without a lowercase form). Everywhere else the
  excerpt takes a code point for a caseless starter that is no whitespace, which is not
  what the full tables say; it serves to run the model on texts written in its rows.
\<close>

definition excerpt_decomp :: "cp \<Rightarrow> ustr" where
  "excerpt_decomp c =
     (if c = 0x622 then [0x627, 0x653]
      else if c = 0x623 then [0x627, 0x654]
      else if c = 0x624 then [0x648, 0x654]
      else if c = 0x625 then [0x627, 0x655]
      else if c = 0x626 then [0x64A, 0x654]
      else if c = 0x675 then [0x627, 0x674]
      else if c = 0x676 then [0x648, 0x674]
      else if c = 0x677 then [0x6C7, 0x674]
      else if c = 0x678 then [0x64A, 0x674]
      else if c = 0x6C0 then [0x6D5, 0x654]
      else if c = 0x6C2 then [0x6C1, 0x654]
      else if c = 0x6D3 then [0x6D2, 0x654]
      else [c])"

definition excerpt_combining :: "cp \<Rightarrow> nat" where
  "excerpt_combining c =
     (if c = 0x64B then 27
      else if c = 0x64C then 28
      else if c = 0x64D then 29
      else if c = 0x618 \<or> c = 0x64E then 30
      else if c = 0x619 \<or> c = 0x64F then 31
      else if c = 0x61A \<or> c = 0x650 then 32
      else if c = 0x651 then 33
      else if c = 0x652 then 34
      else if c = 0x670 then 35
      else if (0x655 \<le> c \<and> c \<le> 0x656) \<or> c = 0x65C \<or> c = 0x65F \<or> c = 0x6E3 \<or>
              c = 0x6EA \<or> c = 0x6ED then 220
      else if (0x610 \<le> c \<and> c \<le> 0x617) \<or> (0x653 \<le> c \<and> c \<le> 0x654) \<or>
              (0x657 \<le> c \<and> c \<le> 0x65B) \<or> (0x65D \<le> c \<and> c \<le> 0x65E) \<or>
              (0x6D6 \<le> c \<and> c \<le> 0x6DC) \<or> (0x6DF \<le> c \<and> c \<le> 0x6E2) \<or> c = 0x6E4 \<or>
              (0x6E7 \<le> c \<and> c \<le> 0x6E8) \<or> (0x6EB \<le> c \<and> c \<le> 0x6EC) then 230
      else 0)"

definition excerpt_isspace :: "cp \<Rightarrow> bool" where
  "excerpt_isspace c \<longleftrightarrow> (0x9 \<le> c \<and> c \<le> 0xD) \<or> (0x1C \<le> c \<and> c \<le> 0x20)"

definition excerpt_tolower :: "cp \<Rightarrow> ustr" where
  "excerpt_tolower c = (if 0x41 \<le> c \<and> c \<le> 0x5A then [c + 0x20] else [c])"

definition excerpt_toupper :: "cp \<Rightarrow> ustr" where
  "excerpt_toupper c = (if 0x61 \<le> c \<and> c \<le> 0x7A then [c - 0x20] else [c])"

definition excerpt_cased :: "cp \<Rightarrow> bool" where
  "excerpt_cased c \<longleftrightarrow>
     (0x41 \<le> c \<and> c \<le> 0x5A) \<or> (0x61 \<le> c \<and> c \<le> 0x7A) \<or> c = 0x1F150"

definition excerpt_case_ignorable :: "cp \<Rightarrow> bool" where
  "excerpt_case_ignorable c \<longleftrightarrow>
     c = 0x27 \<or> c = 0x2E \<or> c = 0x3A \<or> c = 0x5E \<or> c = 0x60 \<or> c = 0x34F \<or>
     (0x600 \<le> c \<and> c \<le> 0x605) \<or> (0x610 \<le> c \<and> c \<le> 0x61A) \<or> c = 0x61C \<or> c = 0x640 \<or>
     (0x64B \<le> c \<and> c \<le> 0x65F) \<or> c = 0x670 \<or> (0x6D6 \<le> c \<and> c \<le> 0x6DD) \<or>
     (0x6DF \<le> c \<and> c \<le> 0x6E8) \<or> (0x6EA \<le> c \<and> c \<le> 0x6ED)"

definition excerpt_is_mark :: "cp \<Rightarrow> bool" where
  "excerpt_is_mark c \<longleftrightarrow>
     c = 0x34F \<or> (0x610 \<le> c \<and> c \<le> 0x61A) \<or> (0x64B \<le> c \<and> c \<le> 0x65F) \<or> c = 0x670 \<or>
     (0x6D6 \<le> c \<and> c \<le> 0x6DC) \<or> (0x6DF \<le> c \<and> c \<le> 0x6E4) \<or>
     (0x6E7 \<le> c \<and> c \<le> 0x6E8) \<or> (0x6EA \<le> c \<and> c \<le> 0x6ED)"

definition excerpt_isupper :: "cp \<Rightarrow> bool" where
  "excerpt_isupper c \<longleftrightarrow> (0x41 \<le> c \<and> c \<le> 0x5A) \<or> c = 0x1F150"

definition ucd_excerpt :: ucd where
  "ucd_excerpt =
     \<lparr>decomp = excerpt_decomp, combining = excerpt_combining, isspace = excerpt_isspace,
      tolower = excerpt_tolower, toupper = excerpt_toupper, cased = excerpt_cased,
      case_ignorable = excerpt_case_ignorable, is_mark = excerpt_is_mark,
      isupper = excerpt_isupper\<rparr>"

section \<open>Inputs for running the model\<close>

text \<open>A generative model whose call fails, and one that answers \<open>FALSE\<close>; the platform
  calls succeed.\<close>

definition failing_env :: env where
  "failing_env =
     \<lparr>generate_content = (\<lambda>prompt. Inl (Exception (ascii ''503 unavailable''))),
      delete_raises = None, send_message_raises = None\<rparr>"

definition clean_env :: env where
  "clean_env =
     \<lparr>generate_content = (\<lambda>prompt. Inr (ascii ''FALSE'')),
      delete_raises = None, send_message_raises = None\<rparr>"

text \<open>An update carrying the text \<open>hi\<close>.\<close>

definition hi_update :: update where
  "hi_update =
     \<lparr>message = Some \<lparr>message_text = Some (ascii ''hi'')\<rparr>,
      effective_chat = Some 7, effective_user = Some (ascii ''user'')\<rparr>"

text \<open>The lexicon without the letter substitutions: the seed words and their forms
  without spaces.\<close>

definition seeds_and_unspaced :: "ustr list" where
  "seeds_and_unspaced =
     remdups (concat (map (\<lambda>word. [word, str_replace 0x20 [] word]) seed_words))"

section \<open>Substring search and the lexicon matcher\<close>

lemmas excerpt_defs = ucd_excerpt_def excerpt_decomp_def excerpt_combining_def
  excerpt_isspace_def excerpt_tolower_def excerpt_toupper_def excerpt_cased_def
  excerpt_case_ignorable_def excerpt_is_mark_def excerpt_isupper_def

lemmas str_defs = normalize_arabic_text_def nfkd_def canonical_order_def str_replace_def
  str_split_def str_lower_def str_upper_def handle_capital_sigma_def

lemma starts_with_iff: "starts_with s p \<longleftrightarrow> (\<exists>ys. s = p @ ys)"
  by (induction s p rule: starts_with.induct) auto

lemma str_contains_iff: "str_contains s p \<longleftrightarrow> (\<exists>xs ys. s = xs @ p @ ys)"
proof (induction s)
  case Nil
  then show ?case by simp
next
  case (Cons c cs)
  show ?case
  proof
    assume "str_contains (c # cs) p"
    then consider "starts_with (c # cs) p" | "str_contains cs p" by auto
    then show "\<exists>xs ys. c # cs = xs @ p @ ys"
    proof cases
      case 1
      then obtain ys where "c # cs = p @ ys" by (auto simp: starts_with_iff)
      then have "c # cs = [] @ p @ ys" by simp
      then show ?thesis by blast
    next
      case 2
      then obtain xs ys where "cs = xs @ p @ ys" using Cons.IH by blast
      then have "c # cs = (c # xs) @ p @ ys" by simp
      then show ?thesis by blast
    qed
  next
    assume "\<exists>xs ys. c # cs = xs @ p @ ys"
    then obtain xs ys where eq: "c # cs = xs @ p @ ys" by blast
    show "str_contains (c # cs) p"
    proof (cases xs)
      case Nil
      with eq have "starts_with (c # cs) p" by (auto simp: starts_with_iff)
      then show ?thesis by simp
    next
      case (Cons x xs')
      with eq have "cs = xs' @ p @ ys" by simp
      then have "str_contains cs p" using Cons.IH by blast
      then show ?thesis by simp
    qed
  qed
qed

text \<open>The loop answers whether some entry matches: its verdict depends on the set of
  entries only, not on the order in which Python iterates over the set.\<close>

lemma direct_match_iff:
  "direct_match db ws t \<longleftrightarrow> (\<exists>w \<in> set ws. str_contains t (str_lower db w))"
  by (induction ws) auto

lemma extend_words_eq:
  "extend_words acc ws =
     acc @ concat (map (\<lambda>w. [w, str_replace 0x20 [] w] @ variations w) ws)"
  by (induction ws arbitrary: acc) auto

lemma set_compile_bad_words:
  "set compile_bad_words =
     (\<Union>w \<in> set seed_words. {w, str_replace 0x20 [] w} \<union> set (variations w))"
  by (auto simp: compile_bad_words_def extend_words_eq)

lemma direct_match_compile:
  "direct_match db compile_bad_words t = direct_match db (extend_words [] seed_words) t"
  by (simp add: direct_match_iff compile_bad_words_def)

subsection \<open>The model on two texts\<close>

lemma normalize_hi: "normalize_arabic_text ucd_excerpt [0x68, 0x69] = [0x68, 0x69]"
  by (simp add: str_defs excerpt_defs)

lemma hi_no_match: "\<not> direct_match ucd_excerpt compile_bad_words [0x68, 0x69]"
  by (simp add: direct_match_compile seed_words_def variations_def str_defs excerpt_defs)

lemma false_has_no_true:
  "\<not> str_contains (str_upper ucd_excerpt (ascii ''FALSE'')) (ascii ''TRUE'')"
  by (simp add: str_upper_def excerpt_defs)

lemma hi_clean_verdict:
  "contains_bad_words ucd_excerpt clean_env [0x68, 0x69] init_state =
     (Inr False, init_state\<lparr>api_calls := [make_prompt [0x68, 0x69]]\<rparr>)"
  using hi_no_match false_has_no_true
  by (simp add: contains_bad_words_def normalize_hi init_state_def gemini_check_def
      clean_env_def)

text \<open>U+064A U+0627, a space, and U+0643 U+0644 U+0628 with a FATHA (U+064E) on its
  first letter.\<close>

lemma normalize_ya_kalb:
  "normalize_arabic_text ucd_excerpt [0x64A, 0x627, 0x20, 0x643, 0x64E, 0x644, 0x628]
     = [0x64A, 0x627, 0x20, 0x643, 0x644, 0x628]"
  by (simp add: str_defs excerpt_defs)

lemma kalb_in_lexicon: "[0x643, 0x644, 0x628] \<in> set compile_bad_words"
  by (simp add: set_compile_bad_words seed_words_def)

lemma lower_kalb: "str_lower ucd_excerpt [0x643, 0x644, 0x628] = [0x643, 0x644, 0x628]"
  by (simp add: str_defs excerpt_defs)

text \<open>
  C1. The lexicon matcher answers true exactly when the lowercased form of some lexicon
  entry occurs as a contiguous substring of the normalized text. In particular, when the
  normalized text contains no entry, the lexicon phase of \<open>contains_bad_words\<close> finds no
  match, and the verdict is the one of the remote phase.
\<close>

theorem lexicon_matcher_iff_substring:
  "(direct_match db (bad_words st) (normalize_arabic_text db t) \<longleftrightarrow>
      (\<exists>w \<in> set (bad_words st). \<exists>xs ys.
          normalize_arabic_text db t = xs @ str_lower db w @ ys)) \<and>
   ((\<forall>w \<in> set (bad_words st). \<forall>xs ys.
          normalize_arabic_text db t \<noteq> xs @ str_lower db w @ ys) \<longrightarrow>
      \<not> direct_match db (bad_words st) (normalize_arabic_text db t) \<and>
      contains_bad_words db ev t st =
        (case gemini_check db ev t st of
           (Inr verdict, st') \<Rightarrow> (Inr verdict, st')
         | (Inl e, st') \<Rightarrow>
             (Inr False,
              print_line (ascii ''Gemini moderation check failed: '' @ str_of_exn e) st')))"
  by (auto simp: direct_match_iff str_contains_iff contains_bad_words_def)

theorem lexicon_matcher_iff_substring_witness:
  "\<not> (\<exists>w \<in> set (bad_words init_state). \<exists>xs ys.
       normalize_arabic_text ucd_excerpt [0x68, 0x69] = xs @ str_lower ucd_excerpt w @ ys) \<and>
   \<not> direct_match ucd_excerpt (bad_words init_state)
       (normalize_arabic_text ucd_excerpt [0x68, 0x69]) \<and>
   contains_bad_words ucd_excerpt clean_env [0x68, 0x69] init_state =
     (Inr False, init_state\<lparr>api_calls := [make_prompt [0x68, 0x69]]\<rparr>) \<and>
   direct_match ucd_excerpt (bad_words init_state)
     (normalize_arabic_text ucd_excerpt [0x64A, 0x627, 0x20, 0x643, 0x64E, 0x644, 0x628])"
proof -
  have clean: "\<forall>w \<in> set (bad_words init_state). \<forall>xs ys.
       normalize_arabic_text ucd_excerpt [0x68, 0x69] \<noteq> xs @ str_lower ucd_excerpt w @ ys"
    using hi_no_match
    by (simp add: normalize_hi init_state_def direct_match_iff str_contains_iff)
  have "normalize_arabic_text ucd_excerpt [0x64A, 0x627, 0x20, 0x643, 0x64E, 0x644, 0x628]
          = [0x64A, 0x627, 0x20] @ str_lower ucd_excerpt [0x643, 0x644, 0x628] @ []"
    by (simp add: normalize_ya_kalb lower_kalb)
  then have found: "\<exists>w \<in> set (bad_words init_state). \<exists>xs ys.
       normalize_arabic_text ucd_excerpt [0x64A, 0x627, 0x20, 0x643, 0x64E, 0x644, 0x628]
         = xs @ str_lower ucd_excerpt w @ ys"
    using kalb_in_lexicon unfolding init_state_def state.simps by blast
  show ?thesis
    using clean found hi_clean_verdict
      lexicon_matcher_iff_substring [of ucd_excerpt init_state "[0x68, 0x69]" clean_env]
      lexicon_matcher_iff_substring [of ucd_excerpt init_state
        "[0x64A, 0x627, 0x20, 0x643, 0x64E, 0x644, 0x628]" clean_env]
    by blast
qed

text \<open>
  C5. For every word of the seed list, the lexicon contains the word, the word with every
  space removed, and the three letter substitutions: every U+0627 replaced by U+0623,
  every U+0627 replaced by U+0625, and every U+0647 replaced by U+0629.
\<close>

theorem seed_variants_in_lexicon:
  "word \<in> set seed_words \<Longrightarrow>
     word \<in> set compile_bad_words \<and>
     str_replace 0x20 [] word \<in> set compile_bad_words \<and>
     str_replace 0x627 [0x623] word \<in> set compile_bad_words \<and>
     str_replace 0x627 [0x625] word \<in> set compile_bad_words \<and>
     str_replace 0x647 [0x629] word \<in> set compile_bad_words"
  unfolding set_compile_bad_words by (auto simp: variations_def)

theorem seed_variants_in_lexicon_witness:
  "[0x639, 0x20, 0x627, 0x20, 0x647, 0x20, 0x631] \<in> set seed_words \<and>
   [0x639, 0x20, 0x627, 0x20, 0x647, 0x20, 0x631] \<in> set compile_bad_words \<and>
   [0x639, 0x627, 0x647, 0x631] \<in> set compile_bad_words \<and>
   [0x639, 0x20, 0x623, 0x20, 0x647, 0x20, 0x631] \<in> set compile_bad_words \<and>
   [0x639, 0x20, 0x625, 0x20, 0x647, 0x20, 0x631] \<in> set compile_bad_words \<and>
   [0x639, 0x20, 0x627, 0x20, 0x629, 0x20, 0x631] \<in> set compile_bad_words"
proof -
  have h: "[0x639, 0x20, 0x627, 0x20, 0x647, 0x20, 0x631] \<in> set seed_words"
    by (simp add: seed_words_def)
  show ?thesis
    using h seed_variants_in_lexicon [OF h] by (simp add: str_replace_def)
qed

section \<open>The remote phase and the dispatcher\<close>

text \<open>Neither phase of \<open>contains_bad_words\<close> touches the lexicon or the messaging
  platform.\<close>

lemma gemini_check_frame:
  "platform_calls (snd (gemini_check db ev t st)) = platform_calls st \<and>
   bad_words (snd (gemini_check db ev t st)) = bad_words st"
  by (simp add: gemini_check_def Let_def split: sum.splits)

lemma contains_bad_words_frame:
  "platform_calls (snd (contains_bad_words db ev t st)) = platform_calls st \<and>
   bad_words (snd (contains_bad_words db ev t st)) = bad_words st"
  using gemini_check_frame [of db ev t st]
  by (auto simp: contains_bad_words_def Let_def print_line_def split: sum.splits prod.splits)

text \<open>No exception leaves \<open>contains_bad_words\<close>: the outer handler of
  \<open>moderate_message\<close> is never entered.\<close>

lemma contains_bad_words_returns:
  "\<exists>verdict. fst (contains_bad_words db ev t st) = Inr verdict"
  by (auto simp: contains_bad_words_def Let_def split: sum.splits prod.splits)

text \<open>
  C2. Whenever the remote classifier is called (the lexicon phase found no match) and the
  call raises an exception \<open>e\<close>, \<open>contains_bad_words\<close> returns \<open>False\<close> to its caller, having
  sent the prompt and printed one line that carries \<open>e\<close>; the exception does not leave the
  method.
\<close>

theorem remote_failure_fails_open:
  "\<not> direct_match db (bad_words st) (normalize_arabic_text db t) \<Longrightarrow>
   generate_content ev (make_prompt t) = Inl e \<Longrightarrow>
   contains_bad_words db ev t st =
     (Inr False,
      print_line (ascii ''Gemini moderation check failed: '' @ str_of_exn e)
        (st\<lparr>api_calls := api_calls st @ [make_prompt t]\<rparr>))"
  by (simp add: contains_bad_words_def gemini_check_def)

theorem remote_failure_fails_open_witness:
  "\<not> direct_match ucd_excerpt (bad_words init_state)
       (normalize_arabic_text ucd_excerpt [0x68, 0x69]) \<and>
   generate_content failing_env (make_prompt [0x68, 0x69])
     = Inl (Exception (ascii ''503 unavailable'')) \<and>
   contains_bad_words ucd_excerpt failing_env [0x68, 0x69] init_state =
     (Inr False,
      \<lparr>bad_words = compile_bad_words, api_calls = [make_prompt [0x68, 0x69]],
       platform_calls = [],
       stdout = [ascii ''Gemini moderation check failed: 503 unavailable'']\<rparr>)"
proof -
  have h1: "\<not> direct_match ucd_excerpt (bad_words init_state)
       (normalize_arabic_text ucd_excerpt [0x68, 0x69])"
    using hi_no_match by (simp add: normalize_hi init_state_def)
  have h2: "generate_content failing_env (make_prompt [0x68, 0x69])
              = Inl (Exception (ascii ''503 unavailable''))"
    by (simp add: failing_env_def)
  show ?thesis
    using h1 h2 remote_failure_fails_open [OF h1 h2]
    by (simp add: init_state_def print_line_def)
qed

text \<open>
  C7. For every incoming text message on which \<open>contains_bad_words\<close> returns \<open>False\<close>,
  \<open>moderate_message\<close> makes no call to the messaging platform, neither a delete nor a
  send: the record of platform calls is what it was.
\<close>

theorem clean_message_no_action:
  assumes "message upd = Some m" and "message_text m = Some t"
    and "fst (contains_bad_words db ev t st) = Inr False"
  shows "platform_calls (moderate_message db ev upd st) = platform_calls st"
proof (cases "t = []")
  case True
  with assms show ?thesis by (simp add: moderate_message_def)
next
  case False
  obtain st' where r: "contains_bad_words db ev t st = (Inr False, st')"
    using assms(3) by (cases "contains_bad_words db ev t st") auto
  have "platform_calls st' = platform_calls st"
    using contains_bad_words_frame [of db ev t st] r by simp
  with assms False r show ?thesis by (simp add: moderate_message_def)
qed

theorem clean_message_no_action_witness:
  "message hi_update = Some \<lparr>message_text = Some [0x68, 0x69]\<rparr> \<and>
   message_text \<lparr>message_text = Some [0x68, 0x69]\<rparr> = Some [0x68, 0x69] \<and>
   fst (contains_bad_words ucd_excerpt clean_env [0x68, 0x69] init_state) = Inr False \<and>
   platform_calls (moderate_message ucd_excerpt clean_env hi_update init_state) = []"
proof -
  have h1: "message hi_update = Some \<lparr>message_text = Some [0x68, 0x69]\<rparr>"
    by (simp add: hi_update_def)
  have h2: "message_text \<lparr>message_text = Some [0x68, 0x69]\<rparr> = Some [0x68, 0x69]"
    by simp
  have h3: "fst (contains_bad_words ucd_excerpt clean_env [0x68, 0x69] init_state) = Inr False"
    by (simp add: hi_clean_verdict)
  show ?thesis
    using h1 h2 h3 clean_message_no_action [OF h1 h2 h3]
    by (simp add: init_state_def)
qed

section \<open>The credentials\<close>

text \<open>
  C9, as the code has it. \<open>get_api_keys\<close> does not look at whether a credential is empty.
  It prints the four lines and exits with status 1 when either credential equals its
  placeholder (\<open>YOUR_TELEGRAM_BOT_TOKEN\<close>, \<open>YOUR_GOOGLE_GEMINI_API_KEY\<close>); in every other
  case it returns the pair and prints nothing. With the two values of the source it
  returns.
\<close>

theorem get_api_keys_placeholder_check:
  "(token = ascii ''YOUR_TELEGRAM_BOT_TOKEN'' \<or> api_key = ascii ''YOUR_GOOGLE_GEMINI_API_KEY''
      \<longrightarrow> get_api_keys_with token api_key out = (Exit 1, out @ replace_keys_message)) \<and>
   (token \<noteq> ascii ''YOUR_TELEGRAM_BOT_TOKEN'' \<and> api_key \<noteq> ascii ''YOUR_GOOGLE_GEMINI_API_KEY''
      \<longrightarrow> get_api_keys_with token api_key out = (Return (token, api_key), out)) \<and>
   get_api_keys out = (Return (TELEGRAM_BOT_TOKEN, GOOGLE_GEMINI_API_KEY), out)"
  by (simp add: get_api_keys_with_def get_api_keys_def TELEGRAM_BOT_TOKEN_def
      GOOGLE_GEMINI_API_KEY_def)

theorem get_api_keys_placeholder_check_witness:
  "get_api_keys_with (ascii ''YOUR_TELEGRAM_BOT_TOKEN'') (ascii ''k'') []
     = (Exit 1, replace_keys_message) \<and>
   get_api_keys_with (ascii ''t'') (ascii ''k'') [] = (Return (ascii ''t'', ascii ''k''), [])"
  using get_api_keys_placeholder_check [of "ascii ''YOUR_TELEGRAM_BOT_TOKEN''" "ascii ''k''" "[]"]
    get_api_keys_placeholder_check [of "ascii ''t''" "ascii ''k''" "[]"]
  by simp

text \<open>Two empty credentials are returned as they are.\<close>

theorem get_api_keys_accepts_empty_counterexample:
  "get_api_keys_with [] [] [] = (Return ([], []), [])"
  by (simp add: get_api_keys_with_def)

section \<open>Normalization\<close>

lemma excerpt_facts: "unicode_facts ucd_excerpt"
  unfolding unicode_facts_def starter_def ucd_excerpt_def
  by (simp add: excerpt_decomp_def excerpt_combining_def excerpt_isspace_def excerpt_tolower_def)

subsection \<open>The facts, one by one\<close>

lemma facts_full: "unicode_facts db \<Longrightarrow> \<forall>c. \<forall>d \<in> set (decomp db c). decomp db d = [d]"
  unfolding unicode_facts_def by (elim conjE)

lemma facts_lower_raw:
  "unicode_facts db \<Longrightarrow>
     \<forall>c. starter db c \<and> tolower db c \<noteq> [c] \<longrightarrow>
          tolower db c \<noteq> [] \<and>
          (\<forall>d \<in> set (tolower db c).
             starter db d \<and> tolower db d = [d] \<and> d \<noteq> 0x3A3 \<and> \<not> isspace db d \<and>
             d \<notin> {0x649, 0x629, 0x623, 0x625})"
  unfolding unicode_facts_def by (elim conjE)

lemma facts_whitespace_caseless: "unicode_facts db \<Longrightarrow> \<forall>c. isspace db c \<longrightarrow> tolower db c = [c]"
  unfolding unicode_facts_def by (elim conjE)

lemma facts_small_sigmas:
  "unicode_facts db \<Longrightarrow>
     \<forall>c \<in> {0x3C2, 0x3C3}. starter db c \<and> tolower db c = [c] \<and> \<not> isspace db c"
  unfolding unicode_facts_def by (elim conjE)

lemma facts_space_is_space: "unicode_facts db \<Longrightarrow> isspace db 0x20"
  unfolding unicode_facts_def by (elim conjE)

lemma facts_space_starter: "unicode_facts db \<Longrightarrow> starter db 0x20"
  unfolding unicode_facts_def by (elim conjE)

lemma facts_arabic:
  "unicode_facts db \<Longrightarrow>
     \<forall>c. 0x621 \<le> c \<and> c \<le> 0x64A \<longrightarrow>
          tolower db c = [c] \<and> \<not> isspace db c \<and> combining db c = 0 \<and>
          (0x627 \<le> c \<longrightarrow> decomp db c = [c])"
  unfolding unicode_facts_def by (elim conjE)

lemma facts_ascii:
  "unicode_facts db \<Longrightarrow>
     \<forall>c. (0x30 \<le> c \<and> c \<le> 0x39) \<or> (0x61 \<le> c \<and> c \<le> 0x7A) \<longrightarrow>
          starter db c \<and> tolower db c = [c] \<and> \<not> isspace db c"
  unfolding unicode_facts_def by (elim conjE)

lemma facts_space: "unicode_facts db \<Longrightarrow> tolower db 0x20 = [0x20]"
  by (simp add: facts_whitespace_caseless [rule_format] facts_space_is_space)

lemma facts_sigma: "unicode_facts db \<Longrightarrow> settled db 0x3C2 \<and> settled db 0x3C3"
  using facts_small_sigmas [of db] by (simp add: settled_def)

lemma facts_lower:
  assumes "unicode_facts db" and "starter db c" and "tolower db c \<noteq> [c]"
  shows "tolower db c \<noteq> [] \<and> (\<forall>d \<in> set (tolower db c). settled db d)"
proof -
  from facts_lower_raw [OF assms(1), rule_format, of c] assms(2,3) have "tolower db c \<noteq> [] \<and>
          (\<forall>d \<in> set (tolower db c).
             starter db d \<and> tolower db d = [d] \<and> d \<noteq> 0x3A3 \<and> \<not> isspace db d \<and>
             d \<notin> {0x649, 0x629, 0x623, 0x625})"
    by simp
  then show ?thesis by (simp add: settled_def)
qed

subsection \<open>NFKD and the removal of marks\<close>

lemma reorder_mark_starters:
  "filter (\<lambda>c. combining db c = 0) (reorder_mark db c ps) = filter (\<lambda>c. combining db c = 0) (c # ps)"
  by (induction ps) auto

lemma canonical_fold_starters:
  "filter (\<lambda>c. combining db c = 0) (rev (foldl (\<lambda>acc c. reorder_mark db c acc) acc s))
     = filter (\<lambda>c. combining db c = 0) (rev acc @ s)"
proof (induction s arbitrary: acc)
  case Nil
  then show ?case by simp
next
  case (Cons c s)
  have "filter (\<lambda>c. combining db c = 0) (rev (reorder_mark db c acc))
          = filter (\<lambda>c. combining db c = 0) (rev (c # acc))"
    by (simp only: rev_filter [symmetric] reorder_mark_starters)
  with Cons.IH [of "reorder_mark db c acc"] show ?case by simp
qed

lemma strip_nfkd:
  "filter (\<lambda>c. combining db c = 0) (nfkd db s)
     = filter (\<lambda>c. combining db c = 0) (concat (map (decomp db) s))"
  using canonical_fold_starters [of db "[]"] by (simp add: nfkd_def canonical_order_def)

lemma canonical_fold_id:
  "\<forall>c \<in> set s. combining db c = 0 \<Longrightarrow>
     foldl (\<lambda>acc c. reorder_mark db c acc) acc s = rev s @ acc"
proof (induction s arbitrary: acc)
  case Nil
  then show ?case by simp
next
  case (Cons c s)
  then have "reorder_mark db c acc = c # acc" by (cases acc) auto
  with Cons show ?case by simp
qed

lemma nfkd_id:
  assumes "\<forall>c \<in> set s. starter db c"
  shows "nfkd db s = s"
proof -
  have "concat (map (decomp db) s) = s"
    using assms by (induction s) (auto simp: starter_def)
  moreover have "\<forall>c \<in> set s. combining db c = 0"
    using assms by (simp add: starter_def)
  ultimately show ?thesis
    by (simp add: nfkd_def canonical_order_def canonical_fold_id)
qed

lemma stripped_starters:
  assumes "unicode_facts db"
    and "c \<in> set (filter (\<lambda>c. combining db c = 0) (nfkd db s))"
  shows "starter db c"
proof -
  from assms(2) have "c \<in> set (concat (map (decomp db) s))" and "combining db c = 0"
    by (simp_all add: strip_nfkd)
  then obtain c0 where "c \<in> set (decomp db c0)" by auto
  with facts_full [OF assms(1)] have "decomp db c = [c]" by auto
  with \<open>combining db c = 0\<close> show ?thesis by (simp add: starter_def)
qed

subsection \<open>The letter replacements\<close>

lemma str_replace_single:
  "str_replace old [new] s = map (\<lambda>c. if c = old then new else c) s"
  by (induction s) (auto simp: str_replace_def)

lemma str_replace_absent: "old \<notin> set s \<Longrightarrow> str_replace old new s = s"
  by (induction s) (auto simp: str_replace_def)

subsection \<open>Splitting and joining\<close>

lemma split_scan_word:
  "\<forall>c \<in> set w. \<not> isspace db c \<Longrightarrow> split_scan db cur (w @ s) = split_scan db (cur @ w) s"
  by (induction w arbitrary: cur) auto

lemma split_scan_words:
  "\<forall>c \<in> set cur. \<not> isspace db c \<Longrightarrow>
   \<forall>w \<in> set (split_scan db cur s). w \<noteq> [] \<and> (\<forall>c \<in> set w. \<not> isspace db c \<and> c \<in> set cur \<union> set s)"
proof (induction s arbitrary: cur)
  case Nil
  then show ?case by auto
next
  case (Cons c s)
  show ?case
  proof (cases "isspace db c")
    case True
    have "\<forall>w \<in> set (split_scan db [] s). w \<noteq> [] \<and> (\<forall>c \<in> set w. \<not> isspace db c \<and> c \<in> set [] \<union> set s)"
      by (rule Cons.IH) simp
    with True Cons.prems show ?thesis by auto
  next
    case False
    with Cons.prems have "\<forall>x \<in> set (cur @ [c]). \<not> isspace db x" by auto
    from Cons.IH [OF this] False show ?thesis by auto
  qed
qed

lemma str_split_words:
  "w \<in> set (str_split db s) \<Longrightarrow> w \<noteq> [] \<and> (\<forall>c \<in> set w. \<not> isspace db c \<and> c \<in> set s)"
  using split_scan_words [of "[]" db s] by (auto simp: str_split_def)

lemma split_join:
  assumes sp: "isspace db 0x20"
    and ws: "\<forall>w \<in> set ws. w \<noteq> [] \<and> (\<forall>c \<in> set w. \<not> isspace db c)"
  shows "split_scan db [] (str_join [0x20] ws) = ws"
  using ws
proof (induction "[0x20::nat]" ws rule: str_join.induct)
  case 1
  then show ?case by simp
next
  case (2 w)
  then have "split_scan db [] (w @ []) = split_scan db ([] @ w) []"
    by (intro split_scan_word) simp
  with 2 show ?case by simp
next
  case (3 w v vs)
  then have "split_scan db [] (w @ ([0x20] @ str_join [0x20] (v # vs)))
               = split_scan db ([] @ w) ([0x20] @ str_join [0x20] (v # vs))"
    by (intro split_scan_word) simp
  moreover have "split_scan db [] (str_join [0x20] (v # vs)) = v # vs"
    using 3 by simp
  ultimately show ?case using 3 sp by simp
qed

lemma set_str_join: "set (str_join sep ws) \<subseteq> set sep \<union> \<Union> (set ` set ws)"
  by (induction sep ws rule: str_join.induct) auto

subsection \<open>Lowercasing\<close>

lemma handle_capital_sigma_cases:
  "handle_capital_sigma db seen after = 0x3C2 \<or> handle_capital_sigma db seen after = 0x3C3"
  by (simp add: handle_capital_sigma_def Let_def)

text \<open>One piece of the result per code point of the input.\<close>

lemma lower_pieces:
  "\<exists>ps. lower_from db seen s = concat ps \<and>
        list_all2 (\<lambda>c p. if c = 0x3A3 then p = [0x3C2] \<or> p = [0x3C3] else p = tolower db c) s ps"
proof (induction s arbitrary: seen)
  case Nil
  then show ?case by simp
next
  case (Cons c s)
  obtain ps where ps: "lower_from db (seen @ [c]) s = concat ps"
    "list_all2 (\<lambda>c p. if c = 0x3A3 then p = [0x3C2] \<or> p = [0x3C3] else p = tolower db c) s ps"
    using Cons.IH by blast
  let ?p = "if c = 0x3A3 then [handle_capital_sigma db seen s] else tolower db c"
  have "lower_from db seen (c # s) = concat (?p # ps)"
    using ps(1) by simp
  moreover have "list_all2 (\<lambda>c p. if c = 0x3A3 then p = [0x3C2] \<or> p = [0x3C3] else p = tolower db c)
                   (c # s) (?p # ps)"
    using ps(2) handle_capital_sigma_cases [of db seen s] by auto
  ultimately show ?case by blast
qed

lemma lower_from_id:
  "\<forall>c \<in> set s. c \<noteq> 0x3A3 \<and> tolower db c = [c] \<Longrightarrow> lower_from db seen s = s"
  by (induction s arbitrary: seen) auto

lemma lower_keeps_caseless:
  "c \<in> set s \<Longrightarrow> c \<noteq> 0x3A3 \<Longrightarrow> tolower db c = [c] \<Longrightarrow> c \<in> set (lower_from db seen s)"
  by (induction s arbitrary: seen) auto

lemma piece_settled:
  assumes "unicode_facts db" and "starter db c" and "\<not> isspace db c"
    and "c \<notin> {0x649, 0x629, 0x623, 0x625}"
    and "if c = 0x3A3 then p = [0x3C2] \<or> p = [0x3C3] else p = tolower db c"
  shows "p \<noteq> [] \<and> (\<forall>d \<in> set p. settled db d)"
proof (cases "c = 0x3A3")
  case True
  have "settled db 0x3C2" "settled db 0x3C3"
    using facts_sigma [OF assms(1)] by simp_all
  with True assms(5) show ?thesis by auto
next
  case False
  with assms(5) have p: "p = tolower db c" by simp
  show ?thesis
  proof (cases "tolower db c = [c]")
    case True
    with False assms p show ?thesis by (simp add: settled_def)
  next
    case diff: False
    with assms(1,2) have "tolower db c \<noteq> [] \<and> (\<forall>d \<in> set (tolower db c). settled db d)"
      by (simp add: facts_lower)
    with p show ?thesis by simp
  qed
qed

lemma word_pieces:
  assumes "unicode_facts db"
    and "list_all2 (\<lambda>c p. if c = 0x3A3 then p = [0x3C2] \<or> p = [0x3C3] else p = tolower db c) w ps"
    and "\<forall>c \<in> set w. starter db c \<and> \<not> isspace db c \<and> c \<notin> {0x649, 0x629, 0x623, 0x625}"
  shows "(\<forall>d \<in> set (concat ps). settled db d) \<and> (w \<noteq> [] \<longrightarrow> concat ps \<noteq> [])"
  using assms(2,3)
proof (induction rule: list_all2_induct)
  case Nil
  then show ?case by simp
next
  case (Cons c w p ps)
  have "p \<noteq> [] \<and> (\<forall>d \<in> set p. settled db d)"
    using piece_settled [OF assms(1), of c p] Cons.hyps(1) Cons.prems by simp
  with Cons show ?case by auto
qed

lemma join_pieces:
  assumes facts: "unicode_facts db"
  shows "\<forall>w \<in> set ws. w \<noteq> [] \<and>
            (\<forall>c \<in> set w. starter db c \<and> \<not> isspace db c \<and> c \<notin> {0x649, 0x629, 0x623, 0x625}) \<Longrightarrow>
         list_all2 (\<lambda>c p. if c = 0x3A3 then p = [0x3C2] \<or> p = [0x3C3] else p = tolower db c)
           (str_join [0x20] ws) ps \<Longrightarrow>
         \<exists>ws'. length ws' = length ws \<and> concat ps = str_join [0x20] ws' \<and> settled_words db ws'"
proof (induction "[0x20::nat]" ws arbitrary: ps rule: str_join.induct)
  case 1
  then show ?case by (simp add: settled_words_def)
next
  case (2 w)
  then have "(\<forall>d \<in> set (concat ps). settled db d) \<and> (w \<noteq> [] \<longrightarrow> concat ps \<noteq> [])"
    using word_pieces [OF facts, of w ps] by simp
  with 2 have "length [concat ps] = length [w] \<and> concat ps = str_join [0x20] [concat ps] \<and>
               settled_words db [concat ps]"
    by (simp add: settled_words_def)
  then show ?case by blast
next
  case (3 w v vs)
  let ?R = "\<lambda>c p. if c = 0x3A3 then p = [0x3C2] \<or> p = [0x3C3] else p = tolower db c"
  let ?rest = "str_join [0x20] (v # vs)"
  from "3.prems"(2) have "list_all2 ?R (w @ (0x20 # ?rest)) ps" by simp
  then obtain pw ps2 where ps2: "ps = pw @ ps2" and pw: "list_all2 ?R w pw"
    and r2: "list_all2 ?R (0x20 # ?rest) ps2"
    using list_all2_append1 [of ?R w "0x20 # ?rest" ps] by auto
  from r2 obtain p prest where ps3: "ps2 = p # prest" and p: "?R 0x20 p"
    and prest: "list_all2 ?R ?rest prest"
    using list_all2_Cons1 [of ?R "0x20" ?rest ps2] by auto
  have ps: "ps = pw @ p # prest" using ps2 ps3 by simp
  from p facts_space [OF facts] have p20: "p = [0x20]" by simp
  have w: "(\<forall>d \<in> set (concat pw). settled db d) \<and> (w \<noteq> [] \<longrightarrow> concat pw \<noteq> [])"
    using word_pieces [OF facts pw] "3.prems"(1) by simp
  obtain ws' where ws': "length ws' = length (v # vs)" "concat prest = str_join [0x20] ws'"
      "settled_words db ws'"
    using "3.hyps" [OF _ prest] "3.prems"(1) by auto
  from ws'(1) obtain x xs where x: "ws' = x # xs" by (cases ws') auto
  have "concat ps = str_join [0x20] (concat pw # ws')"
    using ps p20 ws'(2) x by simp
  moreover have "settled_words db (concat pw # ws')"
    using w ws'(3) "3.prems"(1) by (simp add: settled_words_def)
  moreover have "length (concat pw # ws') = length (w # v # vs)"
    using ws'(1) by simp
  ultimately show ?case by blast
qed

subsection \<open>The shape of a normalized text\<close>

lemma replaced_letters:
  assumes facts: "unicode_facts db"
    and s: "\<forall>c \<in> set s. starter db c"
  shows "\<forall>c \<in> set (str_replace 0x625 [0x627] (str_replace 0x623 [0x627]
                    (str_replace 0x629 [0x647] (str_replace 0x649 [0x64A] s)))).
           starter db c \<and> c \<notin> {0x649, 0x629, 0x623, 0x625}"
proof -
  have ar: "starter db 0x64A" "starter db 0x647" "starter db 0x627"
    using facts_arabic [OF facts, rule_format, of "0x64A"]
      facts_arabic [OF facts, rule_format, of "0x647"]
      facts_arabic [OF facts, rule_format, of "0x627"]
    by (simp_all add: starter_def)
  show ?thesis
    using s ar by (auto simp: str_replace_single)
qed

lemma normalize_shape:
  assumes facts: "unicode_facts db"
  shows "\<exists>ws. normalize_arabic_text db s = str_join [0x20] ws \<and> settled_words db ws"
proof -
  let ?stripped = "filter (\<lambda>c. combining db c = 0) (nfkd db s)"
  let ?replaced = "str_replace 0x625 [0x627] (str_replace 0x623 [0x627]
                    (str_replace 0x629 [0x647] (str_replace 0x649 [0x64A] ?stripped)))"
  let ?words = "str_split db ?replaced"
  have "\<forall>c \<in> set ?stripped. starter db c"
    using stripped_starters [OF facts] by blast
  then have repl: "\<forall>c \<in> set ?replaced. starter db c \<and> c \<notin> {0x649, 0x629, 0x623, 0x625}"
    by (rule replaced_letters [OF facts])
  have words: "\<forall>w \<in> set ?words. w \<noteq> [] \<and>
      (\<forall>c \<in> set w. starter db c \<and> \<not> isspace db c \<and> c \<notin> {0x649, 0x629, 0x623, 0x625})"
  proof
    fix w assume "w \<in> set ?words"
    then have "w \<noteq> [] \<and> (\<forall>c \<in> set w. \<not> isspace db c \<and> c \<in> set ?replaced)"
      by (rule str_split_words)
    with repl show "w \<noteq> [] \<and>
      (\<forall>c \<in> set w. starter db c \<and> \<not> isspace db c \<and> c \<notin> {0x649, 0x629, 0x623, 0x625})"
      by blast
  qed
  obtain ps where ps: "lower_from db [] (str_join [0x20] ?words) = concat ps"
    "list_all2 (\<lambda>c p. if c = 0x3A3 then p = [0x3C2] \<or> p = [0x3C3] else p = tolower db c)
       (str_join [0x20] ?words) ps"
    using lower_pieces [of db "[]" "str_join [0x20] ?words"] by blast
  obtain ws' where "concat ps = str_join [0x20] ws'" "settled_words db ws'"
    using join_pieces [OF facts words ps(2)] by blast
  moreover have "normalize_arabic_text db s = lower_from db [] (str_join [0x20] ?words)"
    by (simp add: normalize_arabic_text_def str_lower_def)
  ultimately show ?thesis using ps(1) by auto
qed

lemma settled_text:
  assumes facts: "unicode_facts db" and ws: "settled_words db ws"
    and c: "c \<in> set (str_join [0x20] ws)"
  shows "starter db c \<and> tolower db c = [c] \<and> c \<noteq> 0x3A3 \<and> c \<notin> {0x649, 0x629, 0x623, 0x625}"
proof -
  from c set_str_join [of "[0x20]" ws] have "c = 0x20 \<or> (\<exists>w \<in> set ws. c \<in> set w)" by auto
  then show ?thesis
  proof
    assume "c = 0x20"
    then show ?thesis
      using facts_space [OF facts] facts_space_starter [OF facts] by simp
  next
    assume "\<exists>w \<in> set ws. c \<in> set w"
    with ws have "settled db c" by (auto simp: settled_words_def)
    then show ?thesis by (simp add: settled_def)
  qed
qed

lemma normalize_fixed:
  assumes facts: "unicode_facts db" and ws: "settled_words db ws"
  shows "normalize_arabic_text db (str_join [0x20] ws) = str_join [0x20] ws"
proof -
  let ?t = "str_join [0x20] ws"
  have chars: "\<forall>c \<in> set ?t. starter db c \<and> tolower db c = [c] \<and> c \<noteq> 0x3A3 \<and>
                 c \<notin> {0x649, 0x629, 0x623, 0x625}"
    using settled_text [OF facts ws] by blast
  have "nfkd db ?t = ?t"
    using chars by (intro nfkd_id) blast
  moreover have "filter (\<lambda>c. combining db c = 0) ?t = ?t"
    using chars by (simp add: starter_def)
  moreover have "str_replace 0x649 [0x64A] ?t = ?t" "str_replace 0x629 [0x647] ?t = ?t"
    "str_replace 0x623 [0x627] ?t = ?t" "str_replace 0x625 [0x627] ?t = ?t"
    using chars by (auto intro!: str_replace_absent)
  moreover have "str_split db ?t = ws"
    unfolding str_split_def
    using ws by (intro split_join facts_space_is_space [OF facts]) (auto simp: settled_words_def settled_def)
  moreover have "lower_from db [] ?t = ?t"
    using chars by (intro lower_from_id) blast
  ultimately show ?thesis
    by (simp add: normalize_arabic_text_def str_lower_def)
qed

subsection \<open>Whitespace in a normalized text\<close>




lemma normalize_chars:
  assumes "unicode_facts db" and "c \<in> set (normalize_arabic_text db s)"
  shows "starter db c \<and> tolower db c = [c] \<and> c \<noteq> 0x3A3 \<and> c \<notin> {0x649, 0x629, 0x623, 0x625}"
proof -
  obtain ws where ws: "normalize_arabic_text db s = str_join [0x20] ws" "settled_words db ws"
    using normalize_shape [OF assms(1)] by blast
  with assms(2) have "c \<in> set (str_join [0x20] ws)" by simp
  from settled_text [OF assms(1) ws(2) this] show ?thesis .
qed

lemma normalize_sample:
  "normalize_arabic_text ucd_excerpt [0x20, 0x41, 0x623, 0x64E, 0x20, 0x9, 0x649, 0x629, 0x625, 0x20]
     = [0x61, 0x627, 0x20, 0x64A, 0x647, 0x627]"
  by (simp add: str_defs excerpt_defs)

text \<open>
  C3. \<open>normalize_arabic_text\<close> is idempotent: normalizing a normalized string gives the
  same string.
\<close>

theorem normalize_idempotent:
  "unicode_facts db \<Longrightarrow>
     normalize_arabic_text db (normalize_arabic_text db s) = normalize_arabic_text db s"
  using normalize_shape [of db s] normalize_fixed [of db] by auto

theorem normalize_idempotent_witness:
  "unicode_facts ucd_excerpt \<and>
   normalize_arabic_text ucd_excerpt
     (normalize_arabic_text ucd_excerpt [0x20, 0x41, 0x623, 0x64E, 0x20, 0x9, 0x649, 0x629, 0x625, 0x20])
     = [0x61, 0x627, 0x20, 0x64A, 0x647, 0x627]"
  using excerpt_facts normalize_sample
    normalize_idempotent [OF excerpt_facts,
      of "[0x20, 0x41, 0x623, 0x64E, 0x20, 0x9, 0x649, 0x629, 0x625, 0x20]"]
  by simp

subsection \<open>Entries that cannot match\<close>

lemma str_contains_subset: "str_contains t p \<Longrightarrow> set p \<subseteq> set t"
  by (auto simp: str_contains_iff)

lemma dead_entry:
  assumes facts: "unicode_facts db"
    and x: "x = 0x623 \<or> x = 0x625 \<or> x = 0x629" and w: "x \<in> set w"
  shows "\<not> str_contains (normalize_arabic_text db s) (str_lower db w)"
proof
  assume "str_contains (normalize_arabic_text db s) (str_lower db w)"
  then have sub: "set (str_lower db w) \<subseteq> set (normalize_arabic_text db s)"
    by (rule str_contains_subset)
  have "tolower db x = [x] \<and> x \<noteq> 0x3A3"
    using x facts_arabic [OF facts, rule_format, of x] by auto
  with w have "x \<in> set (str_lower db w)"
    unfolding str_lower_def by (intro lower_keeps_caseless) simp_all
  with sub have "x \<in> set (normalize_arabic_text db s)" by blast
  from normalize_chars [OF facts this] x show False by auto
qed

lemma str_replace_same_or_new:
  "str_replace old [new] w = w \<or> new \<in> set (str_replace old [new] w)"
proof (cases "old \<in> set w")
  case True
  then have "new \<in> set (str_replace old [new] w)"
    by (force simp: str_replace_single)
  then show ?thesis ..
next
  case False
  then show ?thesis by (simp add: str_replace_absent)
qed

lemma set_seeds_and_unspaced:
  "set seeds_and_unspaced = (\<Union>w \<in> set seed_words. {w, str_replace 0x20 [] w})"
  by (auto simp: seeds_and_unspaced_def)

lemma outside_entry_dead:
  assumes facts: "unicode_facts db"
    and w: "w \<in> set compile_bad_words" and out: "w \<notin> set seeds_and_unspaced"
  shows "\<not> str_contains (normalize_arabic_text db s) (str_lower db w)"
proof -
  from w out obtain seed where seed: "seed \<in> set seed_words" "w \<in> set (variations seed)"
    unfolding set_compile_bad_words set_seeds_and_unspaced by blast
  from seed out have "w \<noteq> seed"
    unfolding set_seeds_and_unspaced by blast
  with seed(2) have "0x623 \<in> set w \<or> 0x625 \<in> set w \<or> 0x629 \<in> set w"
    using str_replace_same_or_new [of "0x627" "0x623" seed]
      str_replace_same_or_new [of "0x627" "0x625" seed]
      str_replace_same_or_new [of "0x647" "0x629" seed]
    by (auto simp: variations_def)
  then show ?thesis
    using dead_entry [OF facts, of _ w s] by blast
qed

text \<open>
  C10. The letter substitutions are dead entries. On every normalized text the matcher
  gives the same verdict over the full lexicon as over the seed words and their forms
  without spaces, and no entry outside of these ever occurs in a normalized text: such an
  entry contains U+0623, U+0625 or U+0629, which no normalized text contains.
\<close>

theorem substitution_variants_dead:
  assumes "unicode_facts db"
  shows "direct_match db compile_bad_words (normalize_arabic_text db s)
           = direct_match db seeds_and_unspaced (normalize_arabic_text db s) \<and>
         (\<forall>w \<in> set compile_bad_words - set seeds_and_unspaced.
            \<not> str_contains (normalize_arabic_text db s) (str_lower db w))"
proof -
  have sub: "set seeds_and_unspaced \<subseteq> set compile_bad_words"
    unfolding set_compile_bad_words set_seeds_and_unspaced by blast
  have dead: "\<forall>w \<in> set compile_bad_words - set seeds_and_unspaced.
            \<not> str_contains (normalize_arabic_text db s) (str_lower db w)"
    using outside_entry_dead [OF assms] by blast
  with sub show ?thesis
    unfolding direct_match_iff by blast
qed

lemma hamza_variant_outside:
  "[0x639, 0x623, 0x647, 0x631] \<in> set compile_bad_words - set seeds_and_unspaced"
  by (simp add: set_compile_bad_words set_seeds_and_unspaced seed_words_def variations_def
      str_replace_def)

theorem substitution_variants_dead_witness:
  "unicode_facts ucd_excerpt \<and>
   direct_match ucd_excerpt seeds_and_unspaced
     (normalize_arabic_text ucd_excerpt [0x64A, 0x627, 0x20, 0x643, 0x64E, 0x644, 0x628]) \<and>
   \<not> str_contains
       (normalize_arabic_text ucd_excerpt [0x64A, 0x627, 0x20, 0x643, 0x64E, 0x644, 0x628])
       (str_lower ucd_excerpt [0x639, 0x623, 0x647, 0x631])"
proof -
  have "str_contains [0x64A, 0x627, 0x20, 0x643, 0x644, 0x628] (str_lower ucd_excerpt [0x643, 0x644, 0x628])"
    by (simp add: lower_kalb)
  then have m: "direct_match ucd_excerpt compile_bad_words
     (normalize_arabic_text ucd_excerpt [0x64A, 0x627, 0x20, 0x643, 0x64E, 0x644, 0x628])"
    unfolding direct_match_iff normalize_ya_kalb using kalb_in_lexicon by blast
  show ?thesis
    using excerpt_facts m hamza_variant_outside
      substitution_variants_dead [OF excerpt_facts,
        of "[0x64A, 0x627, 0x20, 0x643, 0x64E, 0x644, 0x628]"]
    by blast
qed

subsection \<open>Which entries of the lexicon are normalized\<close>

lemma plain_settled:
  assumes facts: "unicode_facts db" and c: "plain_cp c"
  shows "settled db c"
proof -
  from c consider "(0x30 \<le> c \<and> c \<le> 0x39) \<or> (0x61 \<le> c \<and> c \<le> 0x7A)"
    | "0x627 \<le> c \<and> c \<le> 0x64A \<and> c \<noteq> 0x629 \<and> c \<noteq> 0x649"
    unfolding plain_cp_def by blast
  then show ?thesis
  proof cases
    case 1
    with facts_ascii [OF facts, rule_format, of c]
    have "starter db c \<and> tolower db c = [c] \<and> \<not> isspace db c" by simp
    moreover from 1 have "c \<noteq> 0x3A3 \<and> c \<notin> {0x649, 0x629, 0x623, 0x625}" by auto
    ultimately show ?thesis by (simp add: settled_def)
  next
    case 2
    with facts_arabic [OF facts, rule_format, of c]
    have "tolower db c = [c] \<and> \<not> isspace db c \<and> combining db c = 0 \<and> decomp db c = [c]"
      by simp
    moreover from 2 have "c \<noteq> 0x3A3 \<and> c \<notin> {0x649, 0x629, 0x623, 0x625}" by auto
    ultimately show ?thesis by (simp add: settled_def starter_def)
  qed
qed

lemma plain_entry_fixed:
  assumes facts: "unicode_facts db"
    and join: "str_join [0x20] (str_split ucd_excerpt w) = w"
    and plain: "\<forall>c \<in> set w. c = 0x20 \<or> plain_cp c"
  shows "normalize_arabic_text db w = w"
proof -
  have "settled_words db (str_split ucd_excerpt w)"
    unfolding settled_words_def
  proof (intro ballI conjI)
    fix v assume v: "v \<in> set (str_split ucd_excerpt w)"
    from str_split_words [OF v] show "v \<noteq> []" by simp
    fix c assume c: "c \<in> set v"
    with str_split_words [OF v] have "\<not> isspace ucd_excerpt c" "c \<in> set w" by simp_all
    then have "c \<noteq> 0x20" "c = 0x20 \<or> plain_cp c"
      using plain by (auto simp: ucd_excerpt_def excerpt_isspace_def)
    then show "settled db c" using plain_settled [OF facts] by blast
  qed
  from normalize_fixed [OF facts this] join show ?thesis by simp
qed

lemma lexicon_entries_plain:
  "\<forall>w \<in> set compile_bad_words.
     0x629 \<notin> set w \<and> 0x623 \<notin> set w \<and> 0x625 \<notin> set w \<longrightarrow>
     str_join [0x20] (str_split ucd_excerpt w) = w \<and> (\<forall>c \<in> set w. c = 0x20 \<or> plain_cp c)"
  by (simp add: set_compile_bad_words seed_words_def variations_def str_replace_def
      str_split_def plain_cp_def ucd_excerpt_def excerpt_isspace_def)

lemma contains_bad_words_lexicon:
  "contains_bad_words db ev t st = (r, st') \<Longrightarrow> bad_words st' = bad_words st"
  using contains_bad_words_frame [of db ev t st] by simp

lemma delete_and_warn_lexicon:
  "delete_and_warn ev upd st = (st', e) \<Longrightarrow> bad_words st' = bad_words st"
  by (auto simp: delete_and_warn_def platform_call_def Let_def split: option.splits)

lemma moderate_message_lexicon: "bad_words (moderate_message db ev upd st) = bad_words st"
  by (auto simp: moderate_message_def print_line_def
      split: option.splits prod.splits sum.splits
      dest!: contains_bad_words_lexicon delete_and_warn_lexicon)

lemma substitution_has_letter:
  assumes "v \<in> set (variations seed)" and "v \<noteq> seed"
  shows "0x623 \<in> set v \<or> 0x625 \<in> set v \<or> 0x629 \<in> set v"
  using assms str_replace_same_or_new [of "0x627" "0x623" seed]
    str_replace_same_or_new [of "0x627" "0x625" seed]
    str_replace_same_or_new [of "0x647" "0x629" seed]
  by (auto simp: variations_def)

text \<open>
  C4, as the code has it. Every entry of the lexicon that contains none of U+0629, U+0623
  and U+0625 is a normalized string. A letter substitution that differs from its seed word
  carries one of these letters: it is an entry of the lexicon and is not normalized. No
  operation changes the lexicon after it is built.
\<close>

theorem lexicon_entries_normalized:
  assumes facts: "unicode_facts db"
  shows "(w \<in> set compile_bad_words \<and>
            0x629 \<notin> set w \<and> 0x623 \<notin> set w \<and> 0x625 \<notin> set w \<longrightarrow>
            normalize_arabic_text db w = w) \<and>
         (seed \<in> set seed_words \<and> v \<in> set (variations seed) \<and> v \<noteq> seed \<longrightarrow>
            v \<in> set compile_bad_words \<and> normalize_arabic_text db v \<noteq> v) \<and>
         bad_words (snd (contains_bad_words db ev t st)) = bad_words st \<and>
         bad_words (moderate_message db ev upd st) = bad_words st"
proof (intro conjI impI)
  assume "w \<in> set compile_bad_words \<and>
            0x629 \<notin> set w \<and> 0x623 \<notin> set w \<and> 0x625 \<notin> set w"
  with lexicon_entries_plain
  have "str_join [0x20] (str_split ucd_excerpt w) = w \<and> (\<forall>c \<in> set w. c = 0x20 \<or> plain_cp c)"
    by blast
  then show "normalize_arabic_text db w = w"
    using plain_entry_fixed [OF facts] by blast
next
  assume "seed \<in> set seed_words \<and> v \<in> set (variations seed) \<and> v \<noteq> seed"
  then show "v \<in> set compile_bad_words"
    unfolding set_compile_bad_words by blast
next
  assume v: "seed \<in> set seed_words \<and> v \<in> set (variations seed) \<and> v \<noteq> seed"
  then have letter: "0x623 \<in> set v \<or> 0x625 \<in> set v \<or> 0x629 \<in> set v"
    using substitution_has_letter [of v seed] by simp
  show "normalize_arabic_text db v \<noteq> v"
  proof
    assume fixed: "normalize_arabic_text db v = v"
    have "\<forall>c \<in> set (normalize_arabic_text db v). c \<notin> {0x649, 0x629, 0x623, 0x625}"
      using normalize_chars [OF facts] by blast
    then have "\<forall>c \<in> set v. c \<notin> {0x649, 0x629, 0x623, 0x625}"
      unfolding fixed .
    with letter show False by auto
  qed
next
  show "bad_words (snd (contains_bad_words db ev t st)) = bad_words st"
    using contains_bad_words_frame [of db ev t st] by simp
next
  show "bad_words (moderate_message db ev upd st) = bad_words st"
    by (rule moderate_message_lexicon)
qed

lemma normalize_hamza_variant:
  "normalize_arabic_text ucd_excerpt [0x639, 0x623, 0x647, 0x631] = [0x639, 0x627, 0x647, 0x631]"
  by (simp add: str_defs excerpt_defs)

theorem lexicon_entries_normalized_witness:
  "unicode_facts ucd_excerpt \<and>
   [0x643, 0x644, 0x628] \<in> set compile_bad_words \<and>
   normalize_arabic_text ucd_excerpt [0x643, 0x644, 0x628] = [0x643, 0x644, 0x628] \<and>
   [0x639, 0x627, 0x647, 0x631] \<in> set seed_words \<and>
   [0x639, 0x623, 0x647, 0x631] \<in> set (variations [0x639, 0x627, 0x647, 0x631]) \<and>
   normalize_arabic_text ucd_excerpt [0x639, 0x623, 0x647, 0x631] \<noteq> [0x639, 0x623, 0x647, 0x631] \<and>
   bad_words (moderate_message ucd_excerpt clean_env hi_update init_state) = bad_words init_state"
proof -
  note inst = lexicon_entries_normalized [OF excerpt_facts,
        of "[0x643, 0x644, 0x628]" "[0x639, 0x627, 0x647, 0x631]" "[0x639, 0x623, 0x647, 0x631]"
           clean_env "[]" init_state hi_update]
  have kalb: "[0x643, 0x644, 0x628] \<in> set compile_bad_words \<and>
            0x629 \<notin> set [0x643, 0x644, 0x628::nat] \<and> 0x623 \<notin> set [0x643, 0x644, 0x628::nat] \<and>
            0x625 \<notin> set [0x643, 0x644, 0x628::nat]"
    using kalb_in_lexicon by simp
  have seed: "[0x639, 0x627, 0x647, 0x631] \<in> set seed_words"
    by (simp add: seed_words_def)
  have var: "[0x639, 0x623, 0x647, 0x631] \<in> set (variations [0x639, 0x627, 0x647, 0x631])"
    by (simp add: variations_def str_replace_def)
  have hyp: "[0x639, 0x627, 0x647, 0x631] \<in> set seed_words \<and>
      [0x639, 0x623, 0x647, 0x631] \<in> set (variations [0x639, 0x627, 0x647, 0x631]) \<and>
      [0x639, 0x623, 0x647, 0x631] \<noteq> [0x639, 0x627, 0x647, 0x631::nat]"
    using seed var by simp
  from inst [THEN conjunct1, THEN mp, OF kalb]
  have n1: "normalize_arabic_text ucd_excerpt [0x643, 0x644, 0x628] = [0x643, 0x644, 0x628]" .
  from inst [THEN conjunct2, THEN conjunct1, THEN mp, OF hyp]
  have n2: "normalize_arabic_text ucd_excerpt [0x639, 0x623, 0x647, 0x631]
              \<noteq> [0x639, 0x623, 0x647, 0x631]" by (rule conjunct2)
  from inst [THEN conjunct2, THEN conjunct2, THEN conjunct2]
  have n3: "bad_words (moderate_message ucd_excerpt clean_env hi_update init_state)
              = bad_words init_state" .
  from excerpt_facts kalb_in_lexicon n1 seed var n2 n3 show ?thesis by (intro conjI)
qed

text \<open>The substitution of U+0623 for U+0627 in the seed word U+0639 U+0627 U+0647 U+0631
  is an entry of the lexicon, and its normalization is the seed word again.\<close>

theorem lexicon_variant_not_normalized_counterexample:
  "[0x639, 0x623, 0x647, 0x631] \<in> set compile_bad_words \<and>
   normalize_arabic_text ucd_excerpt [0x639, 0x623, 0x647, 0x631] = [0x639, 0x627, 0x647, 0x631] \<and>
   normalize_arabic_text ucd_excerpt [0x639, 0x623, 0x647, 0x631] \<noteq> [0x639, 0x623, 0x647, 0x631]"
  using hamza_variant_outside by (simp add: normalize_hamza_variant)

subsection \<open>A word inside a text survives the normalization\<close>

lemma join_split_starts:
  "cur \<noteq> [] \<Longrightarrow> \<exists>rest. str_join [0x20] (split_scan db cur s) = cur @ rest"
proof (induction s arbitrary: cur)
  case Nil
  then show ?case by simp
next
  case (Cons c s)
  show ?case
  proof (cases "isspace db c")
    case True
    with Cons.prems show ?thesis
      by (cases "split_scan db [] s") simp_all
  next
    case False
    from Cons.IH [of "cur @ [c]"] obtain rest
      where "str_join [0x20] (split_scan db (cur @ [c]) s) = (cur @ [c]) @ rest" by auto
    with False show ?thesis by simp
  qed
qed

lemma join_split_keeps_word:
  assumes k: "k \<noteq> []" "\<forall>c \<in> set k. \<not> isspace db c"
  shows "\<exists>xs ys. str_join [0x20] (split_scan db cur (a @ k @ b)) = xs @ k @ ys"
proof (induction a arbitrary: cur)
  case Nil
  have "split_scan db cur (k @ b) = split_scan db (cur @ k) b"
    using k(2) by (rule split_scan_word)
  moreover obtain rest where "str_join [0x20] (split_scan db (cur @ k) b) = (cur @ k) @ rest"
    using join_split_starts [of "cur @ k" db b] k(1) by auto
  ultimately have "str_join [0x20] (split_scan db cur ([] @ k @ b)) = cur @ k @ rest" by simp
  then show ?case by (intro exI)
next
  case (Cons c a)
  show ?case
  proof (cases "isspace db c")
    case False
    with Cons.IH [of "cur @ [c]"] show ?thesis by simp
  next
    case True
    obtain xs ys where r: "str_join [0x20] (split_scan db [] (a @ k @ b)) = xs @ k @ ys"
      using Cons.IH [of "[]"] by (elim exE)
    show ?thesis
    proof (cases "cur = []")
      case True
      with \<open>isspace db c\<close> r show ?thesis by auto
    next
      case False
      from r k(1) obtain v vs where "split_scan db [] (a @ k @ b) = v # vs"
        by (cases "split_scan db [] (a @ k @ b)") auto
      with r have "str_join [0x20] (cur # split_scan db [] (a @ k @ b)) = (cur @ [0x20] @ xs) @ k @ ys"
        by simp
      moreover have "split_scan db cur ((c # a) @ k @ b) = cur # split_scan db [] (a @ k @ b)"
        using False \<open>isspace db c\<close> by simp
      ultimately have "str_join [0x20] (split_scan db cur ((c # a) @ k @ b)) = (cur @ [0x20] @ xs) @ k @ ys"
        by simp
      then show ?thesis by (intro exI)
    qed
  qed
qed

lemma lower_pieces_id:
  "list_all2 (\<lambda>c p. if c = 0x3A3 then p = [0x3C2] \<or> p = [0x3C3] else p = tolower db c) k ps \<Longrightarrow>
   \<forall>c \<in> set k. c \<noteq> 0x3A3 \<and> tolower db c = [c] \<Longrightarrow> concat ps = k"
  by (induction rule: list_all2_induct) auto

lemma lower_keeps_word:
  assumes "\<forall>c \<in> set k. c \<noteq> 0x3A3 \<and> tolower db c = [c]"
  shows "\<exists>xs ys. lower_from db seen (a @ k @ b) = xs @ k @ ys"
proof -
  let ?R = "\<lambda>c p. if c = 0x3A3 then p = [0x3C2] \<or> p = [0x3C3] else p = tolower db c"
  obtain ps where ps: "lower_from db seen (a @ k @ b) = concat ps" "list_all2 ?R (a @ k @ b) ps"
    using lower_pieces [of db seen "a @ k @ b"] by auto
  from ps(2) obtain pa pr where p1: "ps = pa @ pr" "list_all2 ?R (k @ b) pr"
    using list_all2_append1 [of ?R a "k @ b" ps] by auto
  from p1(2) obtain pk pb where p2: "pr = pk @ pb" "list_all2 ?R k pk"
    using list_all2_append1 [of ?R k b pr] by auto
  have "concat pk = k" using lower_pieces_id [OF p2(2) assms] .
  with ps(1) p1(1) p2(1) have "lower_from db seen (a @ k @ b) = concat pa @ k @ concat pb"
    by simp
  then show ?thesis by (intro exI)
qed

lemma normalize_keeps_word:
  assumes facts: "unicode_facts db" and k: "k \<noteq> []" "\<forall>c \<in> set k. settled db c"
  shows "\<exists>xs ys. normalize_arabic_text db (a @ k @ b) = xs @ k @ ys"
proof -
  let ?P = "\<lambda>c. combining db c = 0"
  let ?f = "\<lambda>s. str_replace 0x625 [0x627] (str_replace 0x623 [0x627]
               (str_replace 0x629 [0x647] (str_replace 0x649 [0x64A] s)))"
  have kd: "concat (map (decomp db) k) = k"
    using k(2) by (induction k) (auto simp: settled_def starter_def)
  have kP: "filter ?P k = k"
    using k(2) by (auto simp: settled_def starter_def)
  have na: "0x649 \<notin> set k" "0x629 \<notin> set k" "0x623 \<notin> set k" "0x625 \<notin> set k"
    using k(2) by (auto simp: settled_def)
  have kf: "?f k = k"
    by (simp add: str_replace_absent na)
  have app: "?f (x @ y) = ?f x @ ?f y" for x y
    by (simp add: str_replace_def)
  have "filter ?P (nfkd db (a @ k @ b))
          = filter ?P (concat (map (decomp db) a)) @ k @ filter ?P (concat (map (decomp db) b))"
    by (simp add: strip_nfkd kd kP)
  then have "?f (filter ?P (nfkd db (a @ k @ b)))
          = ?f (filter ?P (concat (map (decomp db) a))) @ k @ ?f (filter ?P (concat (map (decomp db) b)))"
    by (simp only: app kf)
  then obtain a' b' where r: "?f (filter ?P (nfkd db (a @ k @ b))) = a' @ k @ b'" by (rule that)
  have ns: "\<forall>c \<in> set k. \<not> isspace db c" using k(2) by (simp add: settled_def)
  obtain a'' b'' where j: "str_join [0x20] (split_scan db [] (a' @ k @ b')) = a'' @ k @ b''"
    using join_split_keeps_word [OF k(1) ns, of "[]" a' b'] by (elim exE)
  have "\<forall>c \<in> set k. c \<noteq> 0x3A3 \<and> tolower db c = [c]" using k(2) by (simp add: settled_def)
  from lower_keeps_word [OF this, of "[]" a'' b'']
  obtain xs ys where "lower_from db [] (a'' @ k @ b'') = xs @ k @ ys" by (elim exE)
  moreover have "normalize_arabic_text db (a @ k @ b) = lower_from db [] (a'' @ k @ b'')"
    using r j by (simp add: normalize_arabic_text_def str_lower_def str_split_def)
  ultimately have "normalize_arabic_text db (a @ k @ b) = xs @ k @ ys" by simp
  then show ?thesis by (intro exI)
qed

lemma lexicon_alphabet:
  "\<forall>w \<in> set compile_bad_words. \<forall>c \<in> set w.
     c = 0x20 \<or> (0x621 \<le> c \<and> c \<le> 0x64A) \<or> (0x30 \<le> c \<and> c \<le> 0x39) \<or> (0x61 \<le> c \<and> c \<le> 0x7A)"
  by (simp add: set_compile_bad_words seed_words_def variations_def str_replace_def)

lemma lexicon_lowercase:
  assumes facts: "unicode_facts db" and w: "w \<in> set compile_bad_words"
  shows "str_lower db w = w"
  unfolding str_lower_def
proof (rule lower_from_id, rule ballI)
  fix c assume "c \<in> set w"
  with w lexicon_alphabet [rule_format, of w c]
  have "c = 0x20 \<or> (0x621 \<le> c \<and> c \<le> 0x64A) \<or> (0x30 \<le> c \<and> c \<le> 0x39) \<or> (0x61 \<le> c \<and> c \<le> 0x7A)"
    by simp
  then show "c \<noteq> 0x3A3 \<and> tolower db c = [c]"
    using facts_space [OF facts] facts_arabic [OF facts, rule_format, of c]
      facts_ascii [OF facts, rule_format, of c]
    by auto
qed

subsection \<open>A lexicon match ends the check\<close>

lemma match_returns_true:
  "\<exists>w \<in> set (bad_words st). \<exists>xs ys. normalize_arabic_text db t = xs @ str_lower db w @ ys \<Longrightarrow>
   contains_bad_words db ev t st = (Inr True, st)"
  by (simp add: contains_bad_words_def direct_match_iff str_contains_iff)

lemma kalb_settled:
  "unicode_facts db \<Longrightarrow> \<forall>c \<in> set [0x643, 0x644, 0x628]. settled db c"
  by (simp add: plain_settled plain_cp_def)

text \<open>
  C6. For every text whose normalization contains a lexicon entry, \<open>contains_bad_words\<close>
  returns \<open>True\<close> and leaves the state as it was: no prompt is sent to the generative
  model, so the remote classifier is called only when the lexicon matcher finds nothing.
  This holds for any lexicon in the state, with the entries lowercased as the matcher
  does; the entries of the built lexicon are their own lowercase forms; and every text
  that contains U+0643 U+0644 U+0628 is such a text.
\<close>

theorem lexicon_match_skips_classifier:
  "((\<exists>w \<in> set (bad_words st). \<exists>xs ys.
        normalize_arabic_text db t = xs @ str_lower db w @ ys) \<longrightarrow>
      contains_bad_words db ev t st = (Inr True, st)) \<and>
   (unicode_facts db \<longrightarrow>
      ((\<exists>w \<in> set compile_bad_words. \<exists>xs ys. normalize_arabic_text db t = xs @ w @ ys) \<longrightarrow>
         contains_bad_words db ev t init_state = (Inr True, init_state)) \<and>
      contains_bad_words db ev (a @ [0x643, 0x644, 0x628] @ b) init_state
        = (Inr True, init_state))"
proof (intro conjI impI)
  assume "\<exists>w \<in> set (bad_words st). \<exists>xs ys.
        normalize_arabic_text db t = xs @ str_lower db w @ ys"
  then show "contains_bad_words db ev t st = (Inr True, st)"
    by (rule match_returns_true)
next
  assume facts: "unicode_facts db"
    and "\<exists>w \<in> set compile_bad_words. \<exists>xs ys. normalize_arabic_text db t = xs @ w @ ys"
  then obtain w xs ys where w: "w \<in> set compile_bad_words"
    and eq: "normalize_arabic_text db t = xs @ w @ ys" by auto
  from eq lexicon_lowercase [OF facts w]
  have "normalize_arabic_text db t = xs @ str_lower db w @ ys" by simp
  with w have "\<exists>w \<in> set (bad_words init_state). \<exists>xs ys.
        normalize_arabic_text db t = xs @ str_lower db w @ ys"
    unfolding init_state_def state.simps by (intro bexI exI)
  then show "contains_bad_words db ev t init_state = (Inr True, init_state)"
    by (rule match_returns_true)
next
  assume facts: "unicode_facts db"
  let ?k = "[0x643, 0x644, 0x628] :: ustr"
  obtain xs ys where eq: "normalize_arabic_text db (a @ ?k @ b) = xs @ ?k @ ys"
    using normalize_keeps_word [OF facts _ kalb_settled [OF facts], of a b] by auto
  from eq lexicon_lowercase [OF facts kalb_in_lexicon]
  have "normalize_arabic_text db (a @ ?k @ b) = xs @ str_lower db ?k @ ys" by simp
  with kalb_in_lexicon have "\<exists>w \<in> set (bad_words init_state). \<exists>xs ys.
        normalize_arabic_text db (a @ ?k @ b) = xs @ str_lower db w @ ys"
    unfolding init_state_def state.simps by (intro bexI exI)
  then show "contains_bad_words db ev (a @ ?k @ b) init_state = (Inr True, init_state)"
    by (rule match_returns_true)
qed

theorem lexicon_match_skips_classifier_witness:
  "unicode_facts ucd_excerpt \<and>
   (\<exists>w \<in> set (bad_words init_state). \<exists>xs ys.
       normalize_arabic_text ucd_excerpt [0x64A, 0x627, 0x20, 0x643, 0x64E, 0x644, 0x628]
         = xs @ str_lower ucd_excerpt w @ ys) \<and>
   contains_bad_words ucd_excerpt failing_env
       [0x64A, 0x627, 0x20, 0x643, 0x64E, 0x644, 0x628] init_state = (Inr True, init_state) \<and>
   contains_bad_words ucd_excerpt failing_env
       [0x64A, 0x627, 0x20, 0x643, 0x644, 0x628, 0x21] init_state = (Inr True, init_state) \<and>
   api_calls init_state = []"
proof -
  have "normalize_arabic_text ucd_excerpt [0x64A, 0x627, 0x20, 0x643, 0x64E, 0x644, 0x628]
          = [0x64A, 0x627, 0x20] @ str_lower ucd_excerpt [0x643, 0x644, 0x628] @ []"
    by (simp add: normalize_ya_kalb lower_kalb)
  then have found: "\<exists>w \<in> set (bad_words init_state). \<exists>xs ys.
       normalize_arabic_text ucd_excerpt [0x64A, 0x627, 0x20, 0x643, 0x64E, 0x644, 0x628]
         = xs @ str_lower ucd_excerpt w @ ys"
    using kalb_in_lexicon unfolding init_state_def state.simps by (intro bexI exI)
  have "contains_bad_words ucd_excerpt failing_env
       [0x64A, 0x627, 0x20, 0x643, 0x64E, 0x644, 0x628] init_state = (Inr True, init_state)"
    by (rule lexicon_match_skips_classifier [THEN conjunct1, THEN mp, OF found])
  moreover have "contains_bad_words ucd_excerpt failing_env
       ([0x64A, 0x627, 0x20] @ [0x643, 0x644, 0x628] @ [0x21]) init_state = (Inr True, init_state)"
    by (rule lexicon_match_skips_classifier
        [THEN conjunct2, THEN mp, OF excerpt_facts, THEN conjunct2])
  ultimately show ?thesis
    using excerpt_facts found by (simp add: init_state_def)
qed

section \<open>What the normalization leaves in a text\<close>


subsection \<open>The letter mapping on words\<close>










end
